theory Spec2Isabelle
  imports Complex_Main "HOL-Library.Sublist"
begin

section \<open>Errors\<close>

text \<open>
  \<open>throw tl::Exception (msg)\<close> is \<open>Exception msg\<close>, a failing \<open>tl_assert\<close> is
  \<open>AssertionFailed\<close>, and reading through a null pointer is \<open>NullPointer\<close>.
\<close>

datatype error = Exception string | AssertionFailed | NullPointer

definition msg_already_extracted :: string where
  "msg_already_extracted = ''The netlist has already been extracted''"

definition msg_not_extracted :: string where
  "msg_not_extracted = ''The netlist has not been extracted yet''"

section \<open>Geometry kernel\<close>

text \<open>
  Modelled from the spec: the complex transformation types (\<open>db::ICplxTrans\<close>,
  \<open>db::DCplxTrans\<close>, \<open>db::CplxTrans\<close>, \<open>db::VCplxTrans\<close>) are declared outside
  \<open>dbLayoutToNetlist.cc\<close>. The spec's geometry kernel contract gives them as
  8-fold rotations plus mirror (here an integer matrix), a magnification that is
  treated as a rational scalar, and a displacement; they compose associatively and
  have an inverse for a non-zero magnification. A point \<open>p\<close> is mapped to
  \<open>mag * (M p) + d\<close>.
\<close>

record cplx_trans =
  t_mag :: rat
  t_m11 :: int
  t_m12 :: int
  t_m21 :: int
  t_m22 :: int
  t_dx :: rat
  t_dy :: rat

definition trans_of_mag :: "rat \<Rightarrow> cplx_trans" where
  "trans_of_mag m =
     \<lparr>t_mag = m, t_m11 = 1, t_m12 = 0, t_m21 = 0, t_m22 = 1, t_dx = 0, t_dy = 0\<rparr>"

definition trans_unit :: cplx_trans where
  "trans_unit = trans_of_mag 1"

definition trans_mult :: "cplx_trans \<Rightarrow> cplx_trans \<Rightarrow> cplx_trans" where
  "trans_mult a b =
     \<lparr>t_mag = t_mag a * t_mag b,
      t_m11 = t_m11 a * t_m11 b + t_m12 a * t_m21 b,
      t_m12 = t_m11 a * t_m12 b + t_m12 a * t_m22 b,
      t_m21 = t_m21 a * t_m11 b + t_m22 a * t_m21 b,
      t_m22 = t_m21 a * t_m12 b + t_m22 a * t_m22 b,
      t_dx = t_mag a * (of_int (t_m11 a) * t_dx b + of_int (t_m12 a) * t_dy b) + t_dx a,
      t_dy = t_mag a * (of_int (t_m21 a) * t_dx b + of_int (t_m22 a) * t_dy b) + t_dy a\<rparr>"

definition trans_inverted :: "cplx_trans \<Rightarrow> cplx_trans" where
  "trans_inverted a =
     \<lparr>t_mag = 1 / t_mag a,
      t_m11 = t_m11 a, t_m12 = t_m21 a, t_m21 = t_m12 a, t_m22 = t_m22 a,
      t_dx = - (1 / t_mag a) * (of_int (t_m11 a) * t_dx a + of_int (t_m21 a) * t_dy a),
      t_dy = - (1 / t_mag a) * (of_int (t_m12 a) * t_dx a + of_int (t_m22 a) * t_dy a)\<rparr>"

text \<open>
  Modelled from the spec: \<open>CellInstArray::transform_into\<close> is declared outside the
  source file. The spec has a placement "adjusted by M": the placement is expressed in
  the coordinate system scaled by \<open>m\<close>, which scales its displacement and leaves its
  rotation and its own magnification as they are.
\<close>

definition transform_into :: "cplx_trans \<Rightarrow> cplx_trans \<Rightarrow> cplx_trans" where
  "transform_into m t = trans_mult (trans_mult m t) (trans_inverted m)"

record box =
  b_left :: int
  b_bottom :: int
  b_right :: int
  b_top :: int

type_synonym point = "int \<times> int"

section \<open>Regions and deep layers\<close>

text \<open>
  A region is backed by a deep (hierarchical) layer or it is flat:
  \<open>dynamic_cast<db::DeepRegion *> (r.delegate ())\<close> succeeds on the first kind only.
\<close>

datatype deep_layer = DeepLayer (dl_layer: nat)

datatype region = FlatRegion | DeepRegion (deep_layer_of: deep_layer)

definition is_deep :: "region \<Rightarrow> bool" where
  "is_deep r = (case r of DeepRegion _ \<Rightarrow> True | FlatRegion \<Rightarrow> False)"

section \<open>Netlist\<close>

text \<open>
  Modelled from the spec: the netlist classes (\<open>db::Netlist\<close>, \<open>db::Circuit\<close>,
  \<open>db::Net\<close>, \<open>db::SubCircuit\<close>, \<open>db::Pin\<close>) are declared outside the source file.
  Every accessor the source file calls is a field here. A circuit is referred to by the
  cell index of its cell (one circuit per cell); a pointer that finds no circuit is null.
\<close>

type_synonym polygon_ref = nat

record pin =
  pin_id :: nat

record net =
  net_circuit :: "nat option"
  net_cluster_id :: nat
  net_expanded_name :: string
  net_pin_ids :: "nat list"

definition pin_count :: "net \<Rightarrow> nat" where
  "pin_count n = length (net_pin_ids n)"

record subcircuit =
  sc_expanded_name :: string
  sc_circuit :: "nat option"
  sc_circuit_ref :: "nat option"
  sc_trans :: cplx_trans
  sc_pin_nets :: "(nat \<times> net) list"

definition sc_net_for_pin :: "subcircuit \<Rightarrow> nat \<Rightarrow> net option" where
  "sc_net_for_pin sc p = map_of (sc_pin_nets sc) p"

record circuit =
  c_cell_index :: nat
  c_nets :: "net list"
  c_pins :: "pin list"
  c_pin_nets :: "(nat \<times> net) list"
  c_subcircuits :: "subcircuit list"
  c_parents :: "nat list"
  c_refs :: "subcircuit list"

definition c_net_for_pin :: "circuit \<Rightarrow> nat \<Rightarrow> net option" where
  "c_net_for_pin c p = map_of (c_pin_nets c) p"

definition net_by_cluster_id :: "circuit \<Rightarrow> nat \<Rightarrow> net option" where
  "net_by_cluster_id c cid = find (\<lambda>n. net_cluster_id n = cid) (c_nets c)"

definition pin_by_id :: "circuit \<Rightarrow> nat \<Rightarrow> pin option" where
  "pin_by_id c p = find (\<lambda>q. pin_id q = p) (c_pins c)"

record netlist =
  nl_circuits :: "circuit list"
  nl_device_abstracts :: "nat list"

definition empty_netlist :: netlist where
  "empty_netlist = \<lparr>nl_circuits = [], nl_device_abstracts = []\<rparr>"

definition circuit_by_cell_index :: "netlist \<Rightarrow> nat \<Rightarrow> circuit option" where
  "circuit_by_cell_index nl ci = find (\<lambda>c. c_cell_index c = ci) (nl_circuits nl)"

definition device_abstract_by_cell_index :: "netlist \<Rightarrow> nat \<Rightarrow> bool" where
  "device_abstract_by_cell_index nl ci = (ci \<in> set (nl_device_abstracts nl))"

definition circuit_ptr :: "netlist \<Rightarrow> nat option \<Rightarrow> circuit option" where
  "circuit_ptr nl p = (case p of None \<Rightarrow> None | Some ci \<Rightarrow> circuit_by_cell_index nl ci)"

section \<open>Hierarchical clusters\<close>

text \<open>
  Modelled from the spec: \<open>db::hier_clusters\<close> is declared outside the source file.
  The cell hierarchy is acyclic, so the cluster reached by \<open>(cell index, cluster id)\<close>
  is given with its connections unfolded: a node holds its shapes per layer and, per
  connection, the instance transformation and the child cluster's node.
\<close>

datatype ctree =
  CNode (c_cell: nat) (c_id: nat) (c_shapes: "(nat \<times> polygon_ref list) list")
        (c_conns: "(cplx_trans \<times> ctree) list")

definition shapes_on :: "(nat \<times> polygon_ref list) list \<Rightarrow> nat \<Rightarrow> polygon_ref list" where
  "shapes_on shp l = (case map_of shp l of None \<Rightarrow> [] | Some xs \<Rightarrow> xs)"

record local_cluster =
  lc_id :: nat
  lc_bbox :: box

record hier_clusters =
  hc_local :: "nat \<Rightarrow> local_cluster list"
  hc_node :: "nat \<times> nat \<Rightarrow> ctree option"

definition empty_clusters :: hier_clusters where
  "empty_clusters = \<lparr>hc_local = (\<lambda>_. []), hc_node = (\<lambda>_. None)\<rparr>"

text \<open>
  The cluster \<open>(ci, cid)\<close>: its shapes and its connections. An unknown cluster has no
  shapes and no connections.
\<close>

definition cluster_node :: "hier_clusters \<Rightarrow> nat \<Rightarrow> nat \<Rightarrow> ctree" where
  "cluster_node hc ci cid =
     (case hc_node hc (ci, cid) of
        None \<Rightarrow> CNode ci cid [] []
      | Some n \<Rightarrow> CNode ci cid (c_shapes n) (c_conns n))"

section \<open>Connectivity and the deep shape store\<close>

text \<open>
  Modelled from the spec: \<open>db::Connectivity\<close> and \<open>db::DeepShapeStore\<close> are declared
  outside the source file. Connectivity holds the layer pairs and the global nets
  (a global net's id is its position, allocated when the name is new); the store holds
  its settings, the number of layers made so far, and the internal layout: its
  database unit, its cell names and its cell tree below the initial cell.
\<close>

record connectivity =
  conn_edges :: "(nat \<times> nat) list"
  conn_global_nets :: "string list"
  conn_global_edges :: "(nat \<times> nat) list"

definition empty_connectivity :: connectivity where
  "empty_connectivity = \<lparr>conn_edges = [], conn_global_nets = [], conn_global_edges = []\<rparr>"

definition conn_connect :: "nat \<Rightarrow> nat \<Rightarrow> connectivity \<Rightarrow> connectivity" where
  "conn_connect a b c = c\<lparr>conn_edges := List.insert (a, b) (conn_edges c)\<rparr>"

fun index_of :: "string \<Rightarrow> string list \<Rightarrow> nat" where
  "index_of x [] = 0"
| "index_of x (y # ys) = (if x = y then 0 else Suc (index_of x ys))"

definition conn_global_net_id :: "string \<Rightarrow> connectivity \<Rightarrow> nat \<times> connectivity" where
  "conn_global_net_id gn c =
     (if gn \<in> set (conn_global_nets c) then (index_of gn (conn_global_nets c), c)
      else (length (conn_global_nets c), c\<lparr>conn_global_nets := conn_global_nets c @ [gn]\<rparr>))"

definition conn_connect_global :: "nat \<Rightarrow> string \<Rightarrow> connectivity \<Rightarrow> nat \<times> connectivity" where
  "conn_connect_global l gn c =
     (case conn_global_net_id gn c of
        (gid, c') \<Rightarrow> (gid, c'\<lparr>conn_global_edges := List.insert (l, gid) (conn_global_edges c')\<rparr>))"

datatype lcell = LCell (lcell_index: nat) (lcell_insts: "(cplx_trans list \<times> lcell) list")

record dss =
  dss_threads :: int
  dss_max_area_ratio :: rat
  dss_max_vertex_count :: nat
  dss_text_enlargement :: int
  dss_text_property_name :: string
  dss_layouts :: nat
  dss_layers :: nat
  dss_dbu :: rat
  dss_cell_name :: "nat \<Rightarrow> string"
  dss_top :: lcell

definition dss_create_layer :: "dss \<Rightarrow> deep_layer \<times> dss" where
  "dss_create_layer d =
     (DeepLayer (dss_layers d),
      d\<lparr>dss_layers := Suc (dss_layers d), dss_layouts := max 1 (dss_layouts d)\<rparr>)"

section \<open>The extraction facade\<close>

text \<open>
  The state of a \<open>LayoutToNetlist\<close> object. \<open>mp_netlist\<close> is the owned pointer: the
  identity of the netlist object (the number of the allocation that made it) with the
  object's value, or \<open>None\<close> for the null pointer. \<open>allocs\<close> counts the executions of
  \<open>new db::Netlist ()\<close>.
\<close>

record l2n =
  m_netlist_extracted :: bool
  mp_netlist :: "(nat \<times> netlist) option"
  allocs :: nat
  m_dss :: dss
  m_conn :: connectivity
  m_net_clusters :: hier_clusters
  m_dlrefs :: "deep_layer list"
  m_named_regions :: "string \<rightharpoonup> deep_layer"
  m_name_of_layer :: "nat \<rightharpoonup> string"
  m_dummy_layer :: "deep_layer option"

type_synonym 'a result = "(error + 'a) \<times> l2n"

text \<open>The constructor without iterator, followed by \<open>init ()\<close>.\<close>

definition l2n_init :: "dss \<Rightarrow> l2n" where
  "l2n_init d =
     \<lparr>m_netlist_extracted = False, mp_netlist = None, allocs = 0,
      m_dss = d\<lparr>dss_text_enlargement := 1, dss_text_property_name := ''LABEL''\<rparr>,
      m_conn = empty_connectivity, m_net_clusters = empty_clusters, m_dlrefs = [],
      m_named_regions = Map.empty, m_name_of_layer = Map.empty, m_dummy_layer = None\<rparr>"

definition set_threads :: "int \<Rightarrow> l2n \<Rightarrow> l2n" where
  "set_threads n s = s\<lparr>m_dss := (m_dss s)\<lparr>dss_threads := n\<rparr>\<rparr>"

definition set_area_ratio :: "rat \<Rightarrow> l2n \<Rightarrow> l2n" where
  "set_area_ratio ar s = s\<lparr>m_dss := (m_dss s)\<lparr>dss_max_area_ratio := ar\<rparr>\<rparr>"

definition set_max_vertex_count :: "nat \<Rightarrow> l2n \<Rightarrow> l2n" where
  "set_max_vertex_count n s = s\<lparr>m_dss := (m_dss s)\<lparr>dss_max_vertex_count := n\<rparr>\<rparr>"

definition layer_of :: "region \<Rightarrow> error + nat" where
  "layer_of r =
     (case r of
        FlatRegion \<Rightarrow>
          Inl (Exception ''Non-hierarchical layers cannot be used in netlist extraction'')
      | DeepRegion dl \<Rightarrow> Inr (dl_layer dl))"

definition is_persisted :: "l2n \<Rightarrow> region \<Rightarrow> error + bool" where
  "is_persisted s r =
     (case layer_of r of
        Inl e \<Rightarrow> Inl e
      | Inr l \<Rightarrow> Inr (m_name_of_layer s l \<noteq> None))"

definition name_of_region :: "l2n \<Rightarrow> region \<Rightarrow> error + string" where
  "name_of_region s r =
     (case layer_of r of
        Inl e \<Rightarrow> Inl e
      | Inr l \<Rightarrow> (case m_name_of_layer s l of Some n \<Rightarrow> Inr n | None \<Rightarrow> Inr []))"

definition name_of_layer :: "l2n \<Rightarrow> nat \<Rightarrow> string" where
  "name_of_layer s l = (case m_name_of_layer s l of Some n \<Rightarrow> n | None \<Rightarrow> [])"

definition register_layer :: "region \<Rightarrow> string \<Rightarrow> l2n \<Rightarrow> unit result" where
  "register_layer r n s =
     (if m_named_regions s n \<noteq> None then
        (Inl (Exception (''Layer name is already used: '' @ n)), s)
      else
        (case r of
           FlatRegion \<Rightarrow> (Inl (Exception ''Layer is not a deep region''), s)
         | DeepRegion dl \<Rightarrow>
             (case is_persisted s r of
                Inl e \<Rightarrow> (Inl e, s)
              | Inr p \<Rightarrow>
                  (case (if p then name_of_region s r else Inr []) of
                     Inl e \<Rightarrow> (Inl e, s)
                   | Inr prev_name \<Rightarrow>
                       (let s1 = (if p then s\<lparr>m_named_regions := (m_named_regions s)(prev_name := None)\<rparr>
                                  else s);
                            s2 = s1\<lparr>m_named_regions := (m_named_regions s1)(n \<mapsto> dl)\<rparr>
                        in (case layer_of r of
                              Inl e \<Rightarrow> (Inl e, s2)
                            | Inr l \<Rightarrow>
                                (Inr (), s2\<lparr>m_name_of_layer := (m_name_of_layer s2)(l \<mapsto> n)\<rparr>)))))))"

definition layer_by_name :: "l2n \<Rightarrow> string \<Rightarrow> region option" where
  "layer_by_name s n =
     (case m_named_regions s n of None \<Rightarrow> None | Some dl \<Rightarrow> Some (DeepRegion dl))"

definition layer_by_index :: "l2n \<Rightarrow> nat \<Rightarrow> region option" where
  "layer_by_index s i =
     (case m_name_of_layer s i of None \<Rightarrow> None | Some n \<Rightarrow> layer_by_name s n)"

text \<open>
  \<open>make_layer\<close>, \<open>make_text_layer\<close> and \<open>make_polygon_layer\<close> differ in the shapes the
  new layer receives (its layer selection and its shape flags), which is geometry; on
  the facade they make a new deep layer in the store and register it when a name is
  given.
\<close>

definition make_layer :: "string \<Rightarrow> l2n \<Rightarrow> region result" where
  "make_layer n s =
     (case dss_create_layer (m_dss s) of
        (dl, d) \<Rightarrow>
          (let s1 = s\<lparr>m_dss := d\<rparr>; r = DeepRegion dl
           in if n \<noteq> [] then
                (case register_layer r n s1 of
                   (Inl e, s2) \<Rightarrow> (Inl e, s2)
                 | (Inr _, s2) \<Rightarrow> (Inr r, s2))
              else (Inr r, s1)))"

definition make_layer_index :: "nat \<Rightarrow> string \<Rightarrow> l2n \<Rightarrow> region result" where
  "make_layer_index layer_index n s = make_layer n s"

definition make_text_layer :: "nat \<Rightarrow> string \<Rightarrow> l2n \<Rightarrow> region result" where
  "make_text_layer layer_index n s = make_layer n s"

definition make_polygon_layer :: "nat \<Rightarrow> string \<Rightarrow> l2n \<Rightarrow> region result" where
  "make_polygon_layer layer_index n s = make_layer n s"

text \<open>
  The device extractor is injected and \<open>db::NetlistExtractor\<close> is declared outside the
  source file: both are parameters. They work on the store, the netlist and the
  clusters in place, and may throw.
\<close>

type_synonym device_extractor =
  "dss \<Rightarrow> (string \<times> region) list \<Rightarrow> netlist \<Rightarrow> hier_clusters
     \<Rightarrow> error option \<times> dss \<times> netlist \<times> hier_clusters"

type_synonym net_extractor =
  "dss \<Rightarrow> connectivity \<Rightarrow> netlist \<Rightarrow> hier_clusters \<Rightarrow> bool
     \<Rightarrow> error option \<times> dss \<times> netlist \<times> hier_clusters"

text \<open>\<open>if (! mp_netlist.get ()) mp_netlist.reset (new db::Netlist ())\<close>\<close>

definition ensure_netlist :: "l2n \<Rightarrow> l2n" where
  "ensure_netlist s =
     (case mp_netlist s of
        None \<Rightarrow> s\<lparr>mp_netlist := Some (allocs s, empty_netlist), allocs := Suc (allocs s)\<rparr>
      | Some _ \<Rightarrow> s)"

definition extract_devices ::
  "device_extractor \<Rightarrow> (string \<times> region) list \<Rightarrow> l2n \<Rightarrow> unit result" where
  "extract_devices extractor layers s =
     (if m_netlist_extracted s then (Inl (Exception msg_already_extracted), s)
      else
        (let s1 = ensure_netlist s
         in (case mp_netlist s1 of
               None \<Rightarrow> (Inl NullPointer, s1)
             | Some (a, nl) \<Rightarrow>
                 (case extractor (m_dss s1) layers nl (m_net_clusters s1) of
                    (r, d, nl', hc) \<Rightarrow>
                      ((case r of Some e \<Rightarrow> Inl e | None \<Rightarrow> Inr ()),
                       s1\<lparr>m_dss := d, mp_netlist := Some (a, nl'), m_net_clusters := hc\<rparr>)))))"

definition connect :: "region \<Rightarrow> l2n \<Rightarrow> unit result" where
  "connect l s =
     (if m_netlist_extracted s then (Inl (Exception msg_already_extracted), s)
      else if \<not> is_deep l then
        (Inl (Exception ''Non-hierarchical layers cannot be used in intra-layer connectivity for netlist extraction''), s)
      else
        (case is_persisted s l of
           Inl e \<Rightarrow> (Inl e, s)
         | Inr p \<Rightarrow>
             if \<not> p then
               (Inl (Exception ''Only named layers can be used in intra-layer connectivity for netlist extraction''), s)
             else
               (let dl = deep_layer_of l
                in (Inr (), s\<lparr>m_dlrefs := List.insert dl (m_dlrefs s),
                              m_conn := conn_connect (dl_layer dl) (dl_layer dl) (m_conn s)\<rparr>))))"

definition connect2 :: "region \<Rightarrow> region \<Rightarrow> l2n \<Rightarrow> unit result" where
  "connect2 a b s =
     (if m_netlist_extracted s then (Inl (Exception msg_already_extracted), s)
      else if \<not> is_deep a then
        (Inl (Exception ''Non-hierarchical layers cannot be used in inter-layer connectivity (first layer) for netlist extraction''), s)
      else if \<not> is_deep b then
        (Inl (Exception ''Non-hierarchical layers cannot be used in inter-layer connectivity (second layer) for netlist extraction''), s)
      else
        (case is_persisted s a of
           Inl e \<Rightarrow> (Inl e, s)
         | Inr pa \<Rightarrow>
             if \<not> pa then
               (Inl (Exception ''Only named layers can be used in inter-layer connectivity (first layer) for netlist extraction''), s)
             else
               (case is_persisted s b of
                  Inl e \<Rightarrow> (Inl e, s)
                | Inr pb \<Rightarrow>
                    if \<not> pb then
                      (Inl (Exception ''Only named layers can be used in inter-layer connectivity (second layer) for netlist extraction''), s)
                    else
                      (let dla = deep_layer_of a; dlb = deep_layer_of b
                       in (Inr (),
                           s\<lparr>m_dlrefs := List.insert dlb (List.insert dla (m_dlrefs s)),
                             m_conn := conn_connect (dl_layer dla) (dl_layer dlb) (m_conn s)\<rparr>)))))"

definition connect_global :: "region \<Rightarrow> string \<Rightarrow> l2n \<Rightarrow> nat result" where
  "connect_global l gn s =
     (if m_netlist_extracted s then (Inl (Exception msg_already_extracted), s)
      else if \<not> is_deep l then
        (Inl (Exception ''Non-hierarchical layers cannot be used in global connectivity for netlist extraction''), s)
      else
        (case is_persisted s l of
           Inl e \<Rightarrow> (Inl e, s)
         | Inr p \<Rightarrow>
             if \<not> p then
               (Inl (Exception ''Only named layers can be used in global connectivity for netlist extraction''), s)
             else
               (let dl = deep_layer_of l
                in (case conn_connect_global (dl_layer dl) gn (m_conn s) of
                      (gid, c) \<Rightarrow>
                        (Inr gid, s\<lparr>m_dlrefs := List.insert dl (m_dlrefs s), m_conn := c\<rparr>)))))"

definition extract_netlist :: "net_extractor \<Rightarrow> bool \<Rightarrow> l2n \<Rightarrow> unit result" where
  "extract_netlist extract_nets join_nets_by_label s =
     (if m_netlist_extracted s then (Inl (Exception msg_already_extracted), s)
      else
        (let s1 = ensure_netlist s
         in (case mp_netlist s1 of
               None \<Rightarrow> (Inl NullPointer, s1)
             | Some (a, nl) \<Rightarrow>
                 (case extract_nets (m_dss s1) (m_conn s1) nl (m_net_clusters s1) join_nets_by_label of
                    (r, d, nl', hc) \<Rightarrow>
                      (let s2 = s1\<lparr>m_dss := d, mp_netlist := Some (a, nl'), m_net_clusters := hc\<rparr>
                       in (case r of
                             Some e \<Rightarrow> (Inl e, s2)
                           | None \<Rightarrow> (Inr (), s2\<lparr>m_netlist_extracted := True\<rparr>)))))))"

definition set_netlist_extracted :: "l2n \<Rightarrow> l2n" where
  "set_netlist_extracted s = s\<lparr>m_netlist_extracted := True\<rparr>"

definition ensure_internal_layout :: "l2n \<Rightarrow> l2n" where
  "ensure_internal_layout s =
     (if dss_layouts (m_dss s) = 0 then
        (case dss_create_layer (m_dss s) of
           (dl, d) \<Rightarrow> s\<lparr>m_dss := d, m_dummy_layer := Some dl\<rparr>)
      else s)"

text \<open>
  Modelled from the spec: \<open>DeepShapeStore::const_layout ()\<close> is declared outside the
  source file. The store holds no layout until a layer is made in it (which is what
  \<open>ensure_internal_layout\<close> tests with \<open>layouts () == 0\<close>); asking it for its layout
  then fails an assertion. \<open>internal_layout ()\<close> answers the store, whose layout it is.
\<close>

definition internal_layout :: "l2n \<Rightarrow> error + dss" where
  "internal_layout s = (if dss_layouts (m_dss s) = 0 then Inl AssertionFailed else Inr (m_dss s))"

text \<open>\<open>netlist ()\<close> returns the pointer: the identity of the object, or null.\<close>

definition netlist_ptr :: "l2n \<Rightarrow> nat option" where
  "netlist_ptr s = map_option fst (mp_netlist s)"

definition make_netlist :: "l2n \<Rightarrow> nat option \<times> l2n" where
  "make_netlist s = (let s1 = ensure_netlist s in (netlist_ptr s1, s1))"

section \<open>Delivery of net shapes\<close>

text \<open>
  The three overloads of \<open>deliver_shape\<close>: \<open>StopOnFirst\<close> takes nothing and answers
  \<open>false\<close>; a \<open>db::Region\<close> and a \<open>db::Shapes\<close> container take the polygon, transformed
  (a box as a box, which is the same geometry), and answer \<open>true\<close>. A delivered shape is
  the polygon reference with the transformation applied to it.
\<close>

datatype sink = StopOnFirst | Shapes (sink_shapes: "(cplx_trans \<times> polygon_ref) list")

definition deliver_shape :: "polygon_ref \<Rightarrow> sink \<Rightarrow> cplx_trans \<Rightarrow> bool \<times> sink" where
  "deliver_shape pr to tr =
     (case to of
        StopOnFirst \<Rightarrow> (False, StopOnFirst)
      | Shapes xs \<Rightarrow> (True, Shapes (xs @ [(tr, pr)])))"

text \<open>
  Modelled from the spec: \<open>db::recursive_cluster_shape_iterator\<close> is declared outside
  the source file. The spec has it walk the connections depth first, carrying the
  running transformation from identity and yielding every shape of the current
  cluster on the layer; \<open>skip_cell\<close> advances past all entries under the current cell.
  The iterator is the list of the entries it still has to yield. An entry knows the
  instance path of its cluster (the positions of the connections taken from the start
  cluster), so the entries under the current cell are those whose path extends the
  current one.
\<close>

record rci_entry =
  e_path :: "nat list"
  e_cell :: nat
  e_trans :: cplx_trans
  e_shape :: polygon_ref

fun rci_entries :: "nat \<Rightarrow> nat list \<Rightarrow> cplx_trans \<Rightarrow> ctree \<Rightarrow> rci_entry list"
  and rci_conns :: "nat \<Rightarrow> nat list \<Rightarrow> nat \<Rightarrow> cplx_trans \<Rightarrow> (cplx_trans \<times> ctree) list \<Rightarrow> rci_entry list"
where
  "rci_entries layer p T (CNode ci cid shp conns) =
     map (\<lambda>s. \<lparr>e_path = p, e_cell = ci, e_trans = T, e_shape = s\<rparr>) (shapes_on shp layer)
       @ rci_conns layer p 0 T conns"
| "rci_conns layer p i T [] = []"
| "rci_conns layer p i T (c # cs) =
     rci_entries layer (p @ [i]) (trans_mult T (fst c)) (snd c) @ rci_conns layer p (Suc i) T cs"

definition rci_begin :: "nat \<Rightarrow> ctree \<Rightarrow> rci_entry list" where
  "rci_begin layer node = rci_entries layer [] trans_unit node"

definition rci_skip_cell :: "rci_entry list \<Rightarrow> rci_entry list" where
  "rci_skip_cell it =
     (case it of
        [] \<Rightarrow> []
      | e # es \<Rightarrow> dropWhile (\<lambda>e'. prefix (e_path e) (e_path e')) (e # es))"

text \<open>
  \<open>! nl || nl->circuit_by_cell_index (cci) || nl->device_abstract_by_cell_index (cci)\<close>
\<close>

definition is_preserved :: "netlist option \<Rightarrow> nat \<Rightarrow> bool" where
  "is_preserved nl cci =
     (case nl of
        None \<Rightarrow> True
      | Some n \<Rightarrow> circuit_by_cell_index n cci \<noteq> None \<or> device_abstract_by_cell_index n cci)"



function nonrecursive_loop ::
  "netlist option \<Rightarrow> nat \<Rightarrow> cplx_trans \<Rightarrow> nat \<Rightarrow> rci_entry list \<Rightarrow> sink \<Rightarrow> bool \<times> sink" where
  "nonrecursive_loop nl ci tr prev_ci [] to = (True, to)"
| "nonrecursive_loop nl ci tr prev_ci (e # es) to =
     (let cci = e_cell e
      in if cci \<noteq> prev_ci \<and> cci \<noteq> ci \<and> is_preserved nl cci then
           nonrecursive_loop nl ci tr prev_ci (rci_skip_cell (e # es)) to
         else
           (case deliver_shape (e_shape e) to (trans_mult tr (e_trans e)) of
              (ok, to') \<Rightarrow>
                if \<not> ok then (False, to') else nonrecursive_loop nl ci tr cci es to'))"
  by pat_completeness auto
termination
  by (relation "measure (\<lambda>(nl, ci, tr, prev_ci, it, to). length it)")
     (auto simp: rci_skip_cell_def intro: le_imp_less_Suc length_dropWhile_le)

declare nonrecursive_loop.simps [simp del]

text \<open>
  The cluster \<open>(ci, cid)\<close> of \<open>clusters\<close> is passed as its node, whose cell is \<open>ci\<close>.
\<close>

definition deliver_shapes_of_net_nonrecursive ::
  "netlist option \<Rightarrow> ctree \<Rightarrow> nat \<Rightarrow> cplx_trans \<Rightarrow> sink \<Rightarrow> bool \<times> sink" where
  "deliver_shapes_of_net_nonrecursive nl node layer_id tr to =
     nonrecursive_loop nl (c_cell node) tr (c_cell node) (rci_begin layer_id node) to"

definition netlist_get :: "l2n \<Rightarrow> netlist option" where
  "netlist_get s = map_option snd (mp_netlist s)"


section \<open>Rebuilding the hierarchy of a net\<close>

text \<open>
  Modelled from the spec: the target \<open>db::Layout\<close> and its cells are declared outside
  the source file. A target layout is its database unit and its cells by cell index; a
  cell has a name, the shapes delivered to it per target layer and its instances
  (the cell instantiated and the placement). \<open>add_cell\<close> makes a new cell of the given
  name, whose index is the next one. A \<open>db::Cell &\<close> is the index of the cell.
\<close>

record tcell =
  tc_name :: string
  tc_shapes :: "(nat \<times> cplx_trans \<times> polygon_ref) list"
  tc_insts :: "(nat \<times> cplx_trans) list"

record layout =
  ly_dbu :: rat
  ly_cells :: "tcell list"

definition add_cell :: "string \<Rightarrow> layout \<Rightarrow> nat \<times> layout" where
  "add_cell n ly =
     (length (ly_cells ly),
      ly\<lparr>ly_cells := ly_cells ly @ [\<lparr>tc_name = n, tc_shapes = [], tc_insts = []\<rparr>]\<rparr>)"

definition cell_insert_inst :: "nat \<Rightarrow> nat \<times> cplx_trans \<Rightarrow> layout \<Rightarrow> layout" where
  "cell_insert_inst tc inst ly =
     ly\<lparr>ly_cells := (ly_cells ly)[tc := (ly_cells ly ! tc)\<lparr>tc_insts := tc_insts (ly_cells ly ! tc) @ [inst]\<rparr>]\<rparr>"

definition cell_insert_shapes :: "nat \<Rightarrow> nat \<Rightarrow> (cplx_trans \<times> polygon_ref) list \<Rightarrow> layout \<Rightarrow> layout" where
  "cell_insert_shapes tc l xs ly =
     ly\<lparr>ly_cells := (ly_cells ly)[tc := (ly_cells ly ! tc)\<lparr>tc_shapes := tc_shapes (ly_cells ly ! tc) @ map (Pair l) xs\<rparr>]\<rparr>"

text \<open>
  \<open>std::numeric_limits<db::cell_index_type>::max ()\<close>, the mark of a child that gets no
  cell; \<open>db::cell_index_type\<close> is \<open>unsigned int\<close>.
\<close>

definition cell_index_max :: nat where
  "cell_index_max = 4294967295"

type_synonym lmap = "(nat \<times> region option) list"

type_synonym cmap = "((nat \<times> nat) \<times> nat) list"

text \<open>
  The loop that looks for a first shape: it ends as soon as \<open>consider_cell\<close> is set.
\<close>

fun consider_cell :: "netlist option \<Rightarrow> ctree \<Rightarrow> cplx_trans \<Rightarrow> lmap \<Rightarrow> error + bool" where
  "consider_cell nl node tr [] = Inr False"
| "consider_cell nl node tr (l # ls) =
     (case snd l of
        None \<Rightarrow> consider_cell nl node tr ls
      | Some r \<Rightarrow>
          (case layer_of r of
             Inl e \<Rightarrow> Inl e
           | Inr lid \<Rightarrow>
               if \<not> fst (deliver_shapes_of_net_nonrecursive nl node lid tr StopOnFirst) then Inr True
               else consider_cell nl node tr ls))"

text \<open>The loop that delivers the shapes of every mapped layer into the target cell.\<close>

fun deliver_layers ::
  "netlist option \<Rightarrow> ctree \<Rightarrow> cplx_trans \<Rightarrow> nat \<Rightarrow> lmap \<Rightarrow> layout \<Rightarrow> error + layout" where
  "deliver_layers nl node tr target_cell [] ly = Inr ly"
| "deliver_layers nl node tr target_cell (l # ls) ly =
     (case snd l of
        None \<Rightarrow> deliver_layers nl node tr target_cell ls ly
      | Some r \<Rightarrow>
          (case layer_of r of
             Inl e \<Rightarrow> Inl e
           | Inr lid \<Rightarrow>
               deliver_layers nl node tr target_cell ls
                 (cell_insert_shapes target_cell (fst l)
                    (sink_shapes (snd (deliver_shapes_of_net_nonrecursive nl node lid tr (Shapes []))))
                    ly)))"

text \<open>
  The first block of \<open>build_net_rec\<close>: with a net cell name prefix, the net gets a cell
  of its own unless it is empty. The answer is the cell that takes the shapes
  (\<open>target_cell\<close>) with the layout, or \<open>None\<close> for the shortcut.
\<close>

definition net_cell_block ::
  "netlist option \<Rightarrow> lmap \<Rightarrow> string option \<Rightarrow> ctree \<Rightarrow> nat \<Rightarrow> net option \<Rightarrow> string option
     \<Rightarrow> cplx_trans \<Rightarrow> layout \<Rightarrow> error + (nat \<times> layout) option" where
  "net_cell_block nl lm circuit_cell_name_prefix node tc n net_cell_name_prefix tr ly =
     (case net_cell_name_prefix of
        None \<Rightarrow> Inr (Some (tc, ly))
      | Some pre \<Rightarrow>
          (let any_connections = (circuit_cell_name_prefix \<noteq> None \<and> c_conns node \<noteq> [])
           in (case (if \<not> any_connections then consider_cell nl node tr lm else Inr True) of
                 Inl e \<Rightarrow> Inl e
               | Inr False \<Rightarrow> Inr None
               | Inr True \<Rightarrow>
                   (case n of
                      None \<Rightarrow> Inl NullPointer
                    | Some nt \<Rightarrow>
                        (case add_cell (pre @ net_expanded_name nt) ly of
                           (target_cell, ly1) \<Rightarrow>
                             Inr (Some (target_cell,
                                        cell_insert_inst tc (target_cell, trans_unit) ly1)))))))"

text \<open>The instance of a child's cell, unless the child has none.\<close>

definition place_inst ::
  "nat \<Rightarrow> nat \<Rightarrow> cplx_trans \<Rightarrow> cplx_trans \<Rightarrow> cplx_trans \<Rightarrow> layout \<Rightarrow> layout" where
  "place_inst target_cell v tr_wo_mag tr_mag inst_trans ly =
     (if v \<noteq> cell_index_max then
        cell_insert_inst target_cell (v, transform_into tr_mag (trans_mult tr_wo_mag inst_trans)) ly
      else ly)"

function build_net_rec ::
  "l2n \<Rightarrow> lmap \<Rightarrow> string option \<Rightarrow> string option \<Rightarrow> ctree \<Rightarrow> nat \<Rightarrow> net option
     \<Rightarrow> string option \<Rightarrow> cplx_trans \<Rightarrow> layout \<times> cmap \<Rightarrow> error + layout \<times> cmap"
  and build_conns ::
  "l2n \<Rightarrow> lmap \<Rightarrow> string option \<Rightarrow> string option \<Rightarrow> cplx_trans \<Rightarrow> cplx_trans \<Rightarrow> nat
     \<Rightarrow> (cplx_trans \<times> ctree) list \<Rightarrow> layout \<times> cmap \<Rightarrow> error + layout \<times> cmap"
where
  "build_net_rec s lm ccp dcp (CNode ci cid shp conns) tc n ncp tr st =
     (case net_cell_block (netlist_get s) lm ccp (CNode ci cid shp conns) tc n ncp tr (fst st) of
        Inl e \<Rightarrow> Inl e
      | Inr None \<Rightarrow> Inr st
      | Inr (Some (target_cell, ly1)) \<Rightarrow>
          (case deliver_layers (netlist_get s) (CNode ci cid shp conns) tr target_cell lm ly1 of
             Inl e \<Rightarrow> Inl e
           | Inr ly2 \<Rightarrow>
               if ccp = None \<and> dcp = None then Inr (ly2, snd st)
               else
                 build_conns s lm ccp dcp
                   (trans_mult tr (trans_of_mag (1 / t_mag tr))) (trans_of_mag (t_mag tr))
                   target_cell conns (ly2, snd st)))"
| "build_conns s lm ccp dcp tr_wo_mag tr_mag target_cell [] st = Inr st"
| "build_conns s lm ccp dcp tr_wo_mag tr_mag target_cell (c # cs) st =
     (case map_of (snd st) (c_cell (snd c), c_id (snd c)) of
        Some v \<Rightarrow>
          build_conns s lm ccp dcp tr_wo_mag tr_mag target_cell cs
            (place_inst target_cell v tr_wo_mag tr_mag (fst c) (fst st), snd st)
      | None \<Rightarrow>
          (case netlist_get s of
             None \<Rightarrow> Inl NullPointer
           | Some nl \<Rightarrow>
               (case (if device_abstract_by_cell_index nl (c_cell (snd c)) then dcp else ccp) of
                  Some name_prefix \<Rightarrow>
                    (case add_cell (name_prefix @ dss_cell_name (m_dss s) (c_cell (snd c))) (fst st) of
                       (target_ci, ly1) \<Rightarrow>
                         (case build_net_rec s lm ccp dcp (snd c) target_ci None None tr_mag
                                 (ly1, snd st @ [((c_cell (snd c), c_id (snd c)), target_ci)]) of
                            Inl e \<Rightarrow> Inl e
                          | Inr st2 \<Rightarrow>
                              build_conns s lm ccp dcp tr_wo_mag tr_mag target_cell cs
                                (place_inst target_cell target_ci tr_wo_mag tr_mag (fst c) (fst st2),
                                 snd st2)))
                | None \<Rightarrow>
                    build_conns s lm ccp dcp tr_wo_mag tr_mag target_cell cs
                      (place_inst target_cell cell_index_max tr_wo_mag tr_mag (fst c) (fst st),
                       snd st @ [((c_cell (snd c), c_id (snd c)), cell_index_max)]))))"
  by pat_completeness auto
termination
  by (relation "measure (\<lambda>x. case x of
         Inl (s, lm, ccp, dcp, node, r) \<Rightarrow> 2 * size node
       | Inr (s, lm, ccp, dcp, two, tm, tc, conns, st) \<Rightarrow>
           2 * size_list (size_prod (\<lambda>_. 0) size) conns + 1)")
     auto

text \<open>
  The overload that takes the net: its circuit's cell and its cluster give the node.
\<close>

definition build_net_rec_net ::
  "l2n \<Rightarrow> net \<Rightarrow> nat \<Rightarrow> lmap \<Rightarrow> string option \<Rightarrow> string option \<Rightarrow> string option
     \<Rightarrow> cplx_trans \<Rightarrow> layout \<times> cmap \<Rightarrow> error + layout \<times> cmap" where
  "build_net_rec_net s n target_cell lm ncp ccp dcp tr st =
     (case net_circuit n of
        None \<Rightarrow> Inl AssertionFailed
      | Some ci \<Rightarrow>
          build_net_rec s lm ccp dcp (cluster_node (m_net_clusters s) ci (net_cluster_id n))
            target_cell (Some n) ncp tr st)"

definition build_net ::
  "l2n \<Rightarrow> net \<Rightarrow> layout \<Rightarrow> nat \<Rightarrow> lmap \<Rightarrow> string option \<Rightarrow> string option \<Rightarrow> error + layout" where
  "build_net s n target target_cell lm cell_name_prefix device_cell_name_prefix =
     (if \<not> m_netlist_extracted s then Inl (Exception msg_not_extracted)
      else
        (case internal_layout s of
           Inl e \<Rightarrow> Inl e
         | Inr d \<Rightarrow>
             (let mag = dss_dbu d / ly_dbu target
              in (case build_net_rec_net s n target_cell lm None cell_name_prefix
                         device_cell_name_prefix (trans_of_mag mag) (target, []) of
                    Inl e \<Rightarrow> Inl e
                  | Inr st \<Rightarrow> Inr (fst st)))))"

section \<open>Rebuilding all nets\<close>

text \<open>
  The loops of \<open>build_all_nets\<close> run over the netlist and the cell mapping, which the
  calls of \<open>build_net_rec\<close> do not change: the calls they make are given as a list, in
  their order, and run one after the other. A call is the target cell, the net, the net
  cell name prefix and the transformation; the place where the loops read through a
  null \<open>circuit_ref ()\<close> is an error in the list.
\<close>

record job =
  j_target_ci :: nat
  j_net :: net
  j_net_cell_name_prefix :: "string option"
  j_tr :: cplx_trans

definition is_top_circuit :: "circuit \<Rightarrow> bool" where
  "is_top_circuit c = (c_parents c = [])"

definition net_jobs :: "string option \<Rightarrow> string option \<Rightarrow> rat \<Rightarrow> nat \<Rightarrow> circuit \<Rightarrow> job list" where
  "net_jobs ncp ccp mag target_ci c =
     map (\<lambda>n. \<lparr>j_target_ci = target_ci, j_net = n, j_net_cell_name_prefix = ncp,
               j_tr = trans_of_mag mag\<rparr>)
       (filter (\<lambda>n. \<not> (ccp \<noteq> None \<and> \<not> is_top_circuit c \<and> pin_count n > 0)) (c_nets c))"

text \<open>
  The transformation and the net cell name prefix of a net delivered for a dangling pin
  of a subcircuit: \<open>tr\<close> and \<open>ncn\<close> of the loop over the pins.
\<close>

definition subcircuit_tr :: "rat \<Rightarrow> rat \<Rightarrow> subcircuit \<Rightarrow> cplx_trans" where
  "subcircuit_tr mag dbu sc =
     trans_mult (trans_of_mag mag)
       (trans_mult (trans_mult (trans_inverted (trans_of_mag dbu)) (sc_trans sc)) (trans_of_mag dbu))"

definition ncn :: "string \<Rightarrow> subcircuit \<Rightarrow> string" where
  "ncn net_cell_name_prefix sc = net_cell_name_prefix @ sc_expanded_name sc @ '':''"

definition pin_jobs ::
  "string option \<Rightarrow> rat \<Rightarrow> rat \<Rightarrow> nat \<Rightarrow> subcircuit \<Rightarrow> circuit \<Rightarrow> pin \<Rightarrow> job list" where
  "pin_jobs ncp mag dbu target_ci sc child p =
     (if sc_net_for_pin sc (pin_id p) = None then
        (case c_net_for_pin child (pin_id p) of
           None \<Rightarrow> []
         | Some n \<Rightarrow>
             [\<lparr>j_target_ci = target_ci, j_net = n,
               j_net_cell_name_prefix =
                 (case ncp of None \<Rightarrow> None | Some pre \<Rightarrow> Some (ncn pre sc)),
               j_tr = subcircuit_tr mag dbu sc\<rparr>])
      else [])"

definition subcircuit_jobs ::
  "netlist \<Rightarrow> string option \<Rightarrow> rat \<Rightarrow> rat \<Rightarrow> nat \<Rightarrow> subcircuit \<Rightarrow> (error + job) list" where
  "subcircuit_jobs nl ncp mag dbu target_ci sc =
     (case circuit_ptr nl (sc_circuit_ref sc) of
        None \<Rightarrow> [Inl NullPointer]
      | Some child \<Rightarrow> map Inr (concat (map (pin_jobs ncp mag dbu target_ci sc child) (c_pins child))))"

definition circuit_jobs ::
  "netlist \<Rightarrow> (nat \<times> nat) list \<Rightarrow> string option \<Rightarrow> string option \<Rightarrow> rat \<Rightarrow> rat \<Rightarrow> circuit
     \<Rightarrow> (error + job) list" where
  "circuit_jobs nl cm ncp ccp mag dbu c =
     (case map_of cm (c_cell_index c) of
        None \<Rightarrow> []
      | Some target_ci \<Rightarrow>
          map Inr (net_jobs ncp ccp mag target_ci c)
            @ (if ccp \<noteq> None then
                 concat (map (subcircuit_jobs nl ncp mag dbu target_ci) (c_subcircuits c))
               else []))"

definition all_jobs ::
  "netlist \<Rightarrow> (nat \<times> nat) list \<Rightarrow> string option \<Rightarrow> string option \<Rightarrow> rat \<Rightarrow> rat
     \<Rightarrow> (error + job) list" where
  "all_jobs nl cm ncp ccp mag dbu = concat (map (circuit_jobs nl cm ncp ccp mag dbu) (nl_circuits nl))"

fun run_jobs ::
  "l2n \<Rightarrow> lmap \<Rightarrow> string option \<Rightarrow> string option \<Rightarrow> (error + job) list \<Rightarrow> layout \<times> cmap
     \<Rightarrow> error + layout \<times> cmap" where
  "run_jobs s lm ccp dcp [] st = Inr st"
| "run_jobs s lm ccp dcp (j # js) st =
     (case j of
        Inl e \<Rightarrow> Inl e
      | Inr jb \<Rightarrow>
          (case build_net_rec_net s (j_net jb) (j_target_ci jb) lm (j_net_cell_name_prefix jb)
                  ccp dcp (j_tr jb) st of
             Inl e \<Rightarrow> Inl e
           | Inr st' \<Rightarrow> run_jobs s lm ccp dcp js st'))"

definition build_all_nets ::
  "l2n \<Rightarrow> (nat \<times> nat) list \<Rightarrow> layout \<Rightarrow> lmap \<Rightarrow> string option \<Rightarrow> string option \<Rightarrow> string option
     \<Rightarrow> error + layout" where
  "build_all_nets s cm target lm net_cell_name_prefix circuit_cell_name_prefix device_cell_name_prefix =
     (if \<not> m_netlist_extracted s then Inl (Exception msg_not_extracted)
      else
        (case internal_layout s of
           Inl e \<Rightarrow> Inl e
         | Inr d \<Rightarrow>
             (let mag = dss_dbu d / ly_dbu target
              in (case netlist_get s of
                    None \<Rightarrow> Inl NullPointer
                  | Some nl \<Rightarrow>
                      (case run_jobs s lm circuit_cell_name_prefix device_cell_name_prefix
                              (all_jobs nl cm net_cell_name_prefix circuit_cell_name_prefix mag
                                 (ly_dbu target))
                              (target, []) of
                         Inl e \<Rightarrow> Inl e
                       | Inr st \<Rightarrow> Inr (fst st))))))"

section \<open>Probing a net\<close>

text \<open>
  The geometry of probing is declared outside the source file and is a parameter: the
  transformation of a box, the touching tests behind the three \<open>begin_touching\<close>
  iterators (clusters of a cell, instance arrays of a cell, members of an array),
  \<open>local_cluster::interacts\<close>, and the conversion of a micron point into database units.
\<close>

record test_cluster =
  tcl_box :: box
  tcl_layer :: nat

record geometry =
  g_box_trans :: "cplx_trans \<Rightarrow> box \<Rightarrow> box"
  g_cluster_touches :: "local_cluster \<Rightarrow> box \<Rightarrow> bool"
  g_interacts :: "local_cluster \<Rightarrow> test_cluster \<Rightarrow> cplx_trans \<Rightarrow> connectivity \<Rightarrow> bool"
  g_array_touches :: "nat \<Rightarrow> cplx_trans list \<Rightarrow> box \<Rightarrow> bool"
  g_member_touches :: "nat \<Rightarrow> cplx_trans \<Rightarrow> box \<Rightarrow> bool"
  g_to_dbu :: "rat \<Rightarrow> rat \<times> rat \<Rightarrow> point"

text \<open>An element of an instance path: the cell instantiated and the member's placement.\<close>

record inst_element =
  ie_cell_index :: nat
  ie_trans :: cplx_trans

text \<open>
  \<open>search_net\<close> answers the cluster id (0 for none) and appends to the reversed instance
  path, which it takes by reference. Its two loops over the instance arrays and their
  members are \<open>search_insts\<close> and \<open>search_members\<close>.
\<close>

function search_net ::
  "geometry \<Rightarrow> l2n \<Rightarrow> test_cluster \<Rightarrow> cplx_trans \<Rightarrow> lcell \<Rightarrow> inst_element list
     \<Rightarrow> nat \<times> inst_element list"
  and search_insts ::
  "geometry \<Rightarrow> l2n \<Rightarrow> test_cluster \<Rightarrow> cplx_trans \<Rightarrow> box \<Rightarrow> (cplx_trans list \<times> lcell) list
     \<Rightarrow> inst_element list \<Rightarrow> nat \<times> inst_element list"
  and search_members ::
  "geometry \<Rightarrow> l2n \<Rightarrow> test_cluster \<Rightarrow> cplx_trans \<Rightarrow> box \<Rightarrow> cplx_trans list \<Rightarrow> lcell
     \<Rightarrow> inst_element list \<Rightarrow> nat \<times> inst_element list"
where
  "search_net G s tcl trn (LCell ci insts) path =
     (let local_box = g_box_trans G trn (tcl_box tcl)
      in (case find (\<lambda>lc. g_interacts G lc tcl trn (m_conn s))
                 (filter (\<lambda>lc. g_cluster_touches G lc local_box) (hc_local (m_net_clusters s) ci)) of
            Some lc \<Rightarrow> (lc_id lc, path)
          | None \<Rightarrow> search_insts G s tcl trn local_box insts path))"
| "search_insts G s tcl trn local_box [] path = (0, path)"
| "search_insts G s tcl trn local_box (i # ins) path =
     (if g_array_touches G (lcell_index (snd i)) (fst i) local_box then
        (case search_members G s tcl trn local_box (fst i) (snd i) path of
           (cluster_id, path') \<Rightarrow>
             if cluster_id > 0 then (cluster_id, path')
             else search_insts G s tcl trn local_box ins path')
      else search_insts G s tcl trn local_box ins path)"
| "search_members G s tcl trn local_box [] child path = (0, path)"
| "search_members G s tcl trn local_box (m # ms) child path =
     (if g_member_touches G (lcell_index child) m local_box then
        (case search_net G s tcl (trans_mult (trans_inverted m) trn) child path of
           (cluster_id, path') \<Rightarrow>
             if cluster_id > 0 then
               (cluster_id, path' @ [\<lparr>ie_cell_index = lcell_index child, ie_trans = m\<rparr>])
             else search_members G s tcl trn local_box ms child path')
      else search_members G s tcl trn local_box ms child path)"
  by pat_completeness auto
termination
  by (relation "inv_image (less_than <*lex*> less_than) (\<lambda>x. case x of
         Inl (G, s, tcl, trn, cell, path) \<Rightarrow> (2 * size cell, 0)
       | Inr (Inl (G, s, tcl, trn, b, insts, path)) \<Rightarrow>
           (2 * size_list (size_prod (\<lambda>_. 0) size) insts + 1, 0)
       | Inr (Inr (G, s, tcl, trn, b, ms, child, path)) \<Rightarrow> (2 * size child + 1, length ms))")
     auto

text \<open>
  The loop over the references of the circuit: the first subcircuit with the
  transformation \<open>dtrans\<close>, in a circuit whose cell is \<open>back\<close>, that has a net at the pin.
\<close>

fun find_upper ::
  "netlist \<Rightarrow> pin \<Rightarrow> cplx_trans \<Rightarrow> nat \<Rightarrow> subcircuit list \<Rightarrow> (circuit \<times> net) option" where
  "find_upper nl pn dtrans back [] = None"
| "find_upper nl pn dtrans back (r # rs) =
     (case circuit_ptr nl (sc_circuit r) of
        None \<Rightarrow> find_upper nl pn dtrans back rs
      | Some pc \<Rightarrow>
          if sc_trans r = dtrans \<and> c_cell_index pc = back then
            (case sc_net_for_pin r (pin_id pn) of
               Some un \<Rightarrow> Some (pc, un)
             | None \<Rightarrow> find_upper nl pn dtrans back rs)
          else find_upper nl pn dtrans back rs)"

text \<open>The loop that follows the path up in the net hierarchy.\<close>

function climb ::
  "netlist \<Rightarrow> cplx_trans \<Rightarrow> cplx_trans \<Rightarrow> circuit \<Rightarrow> net \<Rightarrow> inst_element list \<Rightarrow> nat list
     \<Rightarrow> error + circuit \<times> net" where
  "climb nl dbu_trans dbu_trans_inv c n inst_path cell_indexes =
     (if inst_path \<noteq> [] \<and> pin_count n > 0 then
        (case pin_by_id c (hd (net_pin_ids n)) of
           None \<Rightarrow> Inl AssertionFailed
         | Some pn \<Rightarrow>
             (case find_upper nl pn
                     (trans_mult (trans_mult dbu_trans (ie_trans (last inst_path))) dbu_trans_inv)
                     (last (butlast cell_indexes)) (c_refs c) of
                Some up \<Rightarrow>
                  climb nl dbu_trans dbu_trans_inv (fst up) (snd up) (butlast inst_path)
                    (butlast cell_indexes)
              | None \<Rightarrow> Inr (c, n)))
      else Inr (c, n))"
  by pat_completeness auto
termination
  by (relation "measure (\<lambda>(nl, dt, dti, c, n, inst_path, cell_indexes). length inst_path)") auto

declare climb.simps [simp del]

text \<open>
  \<open>db::Coord\<close> is a signed integer of 32 bits: the sums and differences of coordinates
  are taken modulo \<open>2^32\<close>. Modelled from the spec: \<open>db::Box\<close> is declared outside the
  source file; its constructor from two points makes the box that the two points span.
  \<open>test_box\<close> is the box of \<open>probe_net\<close>,
  \<open>db::Box box (point - db::Vector (1, 1), point + db::Vector (1, 1))\<close>.
\<close>

definition coord :: "int \<Rightarrow> int" where
  "coord x = (x + 2147483648) mod 4294967296 - 2147483648"

definition box_of_points :: "point \<Rightarrow> point \<Rightarrow> box" where
  "box_of_points p1 p2 =
     \<lparr>b_left = min (fst p1) (fst p2), b_bottom = min (snd p1) (snd p2),
      b_right = max (fst p1) (fst p2), b_top = max (snd p1) (snd p2)\<rparr>"

definition test_box :: "point \<Rightarrow> box" where
  "test_box pt =
     box_of_points (coord (fst pt - 1), coord (snd pt - 1)) (coord (fst pt + 1), coord (snd pt + 1))"

definition probe_net :: "geometry \<Rightarrow> l2n \<Rightarrow> region \<Rightarrow> point \<Rightarrow> error + (circuit \<times> net) option" where
  "probe_net G s of_region pt =
     (if \<not> m_netlist_extracted s then Inl (Exception msg_not_extracted)
      else
        (case netlist_get s of
           None \<Rightarrow> Inl AssertionFailed
         | Some nl \<Rightarrow>
             (let dbu_trans = trans_of_mag (dss_dbu (m_dss s));
                  dbu_trans_inv = trans_inverted dbu_trans
              in (case layer_of of_region of
                    Inl e \<Rightarrow> Inl e
                  | Inr layer \<Rightarrow>
                      (let bx = test_box pt;
                           tcl = \<lparr>tcl_box = bx, tcl_layer = layer\<rparr>
                       in (case search_net G s tcl trans_unit (dss_top (m_dss s)) [] of
                             (cluster_id, rev_path) \<Rightarrow>
                               if cluster_id > 0 then
                                 (let inst_path = rev rev_path;
                                      cell_indexes = lcell_index (dss_top (m_dss s)) # map ie_cell_index inst_path
                                  in (case circuit_by_cell_index nl (last cell_indexes) of
                                        None \<Rightarrow> Inr None
                                      | Some c \<Rightarrow>
                                          (case net_by_cluster_id c cluster_id of
                                             None \<Rightarrow> Inr None
                                           | Some n \<Rightarrow>
                                               (case climb nl dbu_trans dbu_trans_inv c n inst_path cell_indexes of
                                                  Inl e \<Rightarrow> Inl e
                                                | Inr r \<Rightarrow> Inr (Some r)))))
                               else Inr None))))))"

definition probe_net_dpoint ::
  "geometry \<Rightarrow> l2n \<Rightarrow> region \<Rightarrow> rat \<times> rat \<Rightarrow> error + (circuit \<times> net) option" where
  "probe_net_dpoint G s of_region pt =
     (case internal_layout s of
        Inl e \<Rightarrow> Inl e
      | Inr d \<Rightarrow> probe_net G s of_region (g_to_dbu G (dss_dbu d) pt))"

section \<open>Sessions\<close>

text \<open>
  The calls that change a \<open>LayoutToNetlist\<close> object (every method of the source file
  that is not \<open>const\<close>, but \<open>probe_net\<close>, which changes nothing), and the state after a
  sequence of them: a call that throws leaves the state it has reached.
\<close>

definition global_net_id :: "string \<Rightarrow> l2n \<Rightarrow> nat \<times> l2n" where
  "global_net_id gn s = (case conn_global_net_id gn (m_conn s) of (i, c) \<Rightarrow> (i, s\<lparr>m_conn := c\<rparr>))"

datatype call =
    SetThreads int
  | SetAreaRatio rat
  | SetMaxVertexCount nat
  | MakeLayer string
  | MakeLayerIndex nat string
  | MakeTextLayer nat string
  | MakePolygonLayer nat string
  | ExtractDevices device_extractor "(string \<times> region) list"
  | Connect region
  | Connect2 region region
  | ConnectGlobal region string
  | GlobalNetId string
  | ExtractNetlist bool
  | SetNetlistExtracted
  | EnsureInternalLayout
  | RegisterLayer region string
  | MakeNetlist

fun step :: "net_extractor \<Rightarrow> l2n \<Rightarrow> call \<Rightarrow> l2n" where
  "step X s (SetThreads n) = set_threads n s"
| "step X s (SetAreaRatio ar) = set_area_ratio ar s"
| "step X s (SetMaxVertexCount n) = set_max_vertex_count n s"
| "step X s (MakeLayer n) = snd (make_layer n s)"
| "step X s (MakeLayerIndex i n) = snd (make_layer_index i n s)"
| "step X s (MakeTextLayer i n) = snd (make_text_layer i n s)"
| "step X s (MakePolygonLayer i n) = snd (make_polygon_layer i n s)"
| "step X s (ExtractDevices ex layers) = snd (extract_devices ex layers s)"
| "step X s (Connect l) = snd (connect l s)"
| "step X s (Connect2 a b) = snd (connect2 a b s)"
| "step X s (ConnectGlobal l gn) = snd (connect_global l gn s)"
| "step X s (GlobalNetId gn) = snd (global_net_id gn s)"
| "step X s (ExtractNetlist j) = snd (extract_netlist X j s)"
| "step X s SetNetlistExtracted = set_netlist_extracted s"
| "step X s EnsureInternalLayout = ensure_internal_layout s"
| "step X s (RegisterLayer r n) = snd (register_layer r n s)"
| "step X s MakeNetlist = snd (make_netlist s)"

definition run :: "net_extractor \<Rightarrow> l2n \<Rightarrow> call list \<Rightarrow> l2n" where
  "run X s cs = foldl (step X) s cs"

text \<open>The calls that can set \<open>m_netlist_extracted\<close>, and those that can make the netlist.\<close>

fun marks_extracted :: "call \<Rightarrow> bool" where
  "marks_extracted (ExtractNetlist j) = True"
| "marks_extracted SetNetlistExtracted = True"
| "marks_extracted c = False"



section \<open>The notions of the claim on delivery\<close>

text \<open>
  An entry of the iterator is blocked when its cell is not the start cell and is a
  circuit or a device abstract of the netlist (or there is no netlist): this is where
  the loop calls \<open>skip_cell\<close>. An entry is skipped when an entry of its own cluster or of
  a cluster above it, on its instance path, is blocked. A delivered shape is the entry's
  shape with the running transformation.
\<close>

definition entry_blocked :: "netlist option \<Rightarrow> nat \<Rightarrow> rci_entry \<Rightarrow> bool" where
  "entry_blocked nl ci e = (e_cell e \<noteq> ci \<and> is_preserved nl (e_cell e))"


definition placed :: "cplx_trans \<Rightarrow> rci_entry \<Rightarrow> cplx_trans \<times> polygon_ref" where
  "placed tr e = (trans_mult tr (e_trans e), e_shape e)"

text \<open>
  The same delivery by recursion over the clusters: a cluster that has a shape on the
  layer and lies in a blocked cell ends the descent, every other cluster gives its
  shapes and those of its connections. The recursion passes a cluster without shapes
  on the layer, as the iterator does, which never rests on it.
\<close>

fun flat_node ::
  "netlist option \<Rightarrow> nat \<Rightarrow> cplx_trans \<Rightarrow> nat \<Rightarrow> cplx_trans \<Rightarrow> ctree \<Rightarrow> (cplx_trans \<times> polygon_ref) list"
  and flat_conns ::
  "netlist option \<Rightarrow> nat \<Rightarrow> cplx_trans \<Rightarrow> nat \<Rightarrow> cplx_trans \<Rightarrow> (cplx_trans \<times> ctree) list
     \<Rightarrow> (cplx_trans \<times> polygon_ref) list"
where
  "flat_node nl ci tr layer T (CNode cci cid shp conns) =
     (if cci \<noteq> ci \<and> is_preserved nl cci \<and> shapes_on shp layer \<noteq> [] then []
      else map (\<lambda>s. (trans_mult tr T, s)) (shapes_on shp layer) @ flat_conns nl ci tr layer T conns)"
| "flat_conns nl ci tr layer T [] = []"
| "flat_conns nl ci tr layer T (c # cs) =
     flat_node nl ci tr layer (trans_mult T (fst c)) (snd c) @ flat_conns nl ci tr layer T cs"

text \<open>The last cell delivered from is the start cell or a cell that is not blocked.\<close>

definition prev_ok :: "netlist option \<Rightarrow> nat \<Rightarrow> nat \<Rightarrow> bool" where
  "prev_ok nl ci prev = (prev = ci \<or> \<not> is_preserved nl prev)"

section \<open>The notions of the claims on probing\<close>


definition probe_cluster :: "region \<Rightarrow> point \<Rightarrow> test_cluster" where
  "probe_cluster r pt =
     \<lparr>tcl_box = test_box pt,
      tcl_layer = (case r of DeepRegion dl \<Rightarrow> dl_layer dl | FlatRegion \<Rightarrow> 0)\<rparr>"

text \<open>
  One step of the climb, in the words of the spec: with a non-empty instance path and
  a net that has a pin, take the net's first pin and a subcircuit that references the
  circuit, whose transformation is the one of the last path element under
  database-unit compensation and whose circuit is the next cell on the path, and that
  has a net at the pin; move to that circuit and net, and drop the last path element.
\<close>

inductive climb_step ::
  "netlist \<Rightarrow> cplx_trans \<Rightarrow> cplx_trans
     \<Rightarrow> circuit \<times> net \<times> inst_element list \<times> nat list
     \<Rightarrow> circuit \<times> net \<times> inst_element list \<times> nat list \<Rightarrow> bool"
  for nl :: netlist and dbu_trans :: cplx_trans and dbu_trans_inv :: cplx_trans
where
  "inst_path \<noteq> [] \<Longrightarrow> pin_count n > 0 \<Longrightarrow>
   pin_by_id c (hd (net_pin_ids n)) = Some pn \<Longrightarrow>
   r \<in> set (c_refs c) \<Longrightarrow>
   sc_trans r = trans_mult (trans_mult dbu_trans (ie_trans (last inst_path))) dbu_trans_inv \<Longrightarrow>
   circuit_ptr nl (sc_circuit r) = Some uc \<Longrightarrow>
   c_cell_index uc = last (butlast cell_indexes) \<Longrightarrow>
   sc_net_for_pin r (pin_id pn) = Some un \<Longrightarrow>
   climb_step nl dbu_trans dbu_trans_inv
     (c, n, inst_path, cell_indexes) (uc, un, butlast inst_path, butlast cell_indexes)"

section \<open>The notions of the claims on rebuilding\<close>

text \<open>
  The key under which \<open>build_net_rec\<close> remembers the cell of a child: the child's cell
  index and cluster id.
\<close>

definition conn_key :: "cplx_trans \<times> ctree \<Rightarrow> nat \<times> nat" where
  "conn_key c = (c_cell (snd c), c_id (snd c))"

text \<open>
  What a call of \<open>build_net_rec\<close> with the target cell \<open>tc\<close> leaves as it is: the
  database unit, the name of every cell there was and every cell there was but \<open>tc\<close>.
\<close>

definition extends_layout :: "nat \<Rightarrow> layout \<Rightarrow> layout \<Rightarrow> bool" where
  "extends_layout tc ly ly' =
     (ly_dbu ly' = ly_dbu ly \<and> length (ly_cells ly) \<le> length (ly_cells ly') \<and>
      (\<forall>i < length (ly_cells ly).
         tc_name (ly_cells ly' ! i) = tc_name (ly_cells ly ! i) \<and>
         (i \<noteq> tc \<longrightarrow> ly_cells ly' ! i = ly_cells ly ! i)))"

text \<open>
  The four ways through the body of the loop over the connections: the child's cell is
  known, a cell is made for it under a prefix, it gets no cell, or the netlist is null.
\<close>

datatype conn_branch = Known nat | NewCell string | NoCell | NoNetlist

definition conn_branch_of ::
  "l2n \<Rightarrow> string option \<Rightarrow> string option \<Rightarrow> cplx_trans \<times> ctree \<Rightarrow> cmap \<Rightarrow> conn_branch" where
  "conn_branch_of s ccp dcp c cm =
     (case map_of cm (conn_key c) of
        Some v \<Rightarrow> Known v
      | None \<Rightarrow>
          (case netlist_get s of
             None \<Rightarrow> NoNetlist
           | Some nl \<Rightarrow>
               (case (if device_abstract_by_cell_index nl (c_cell (snd c)) then dcp else ccp) of
                  Some name_prefix \<Rightarrow> NewCell name_prefix
                | None \<Rightarrow> NoCell)))"

text \<open>
  Every region of the layer map is a deep one, so that \<open>layer_of\<close> answers for each.
\<close>

definition lmap_ok :: "lmap \<Rightarrow> bool" where
  "lmap_ok lm = list_all (\<lambda>l. case snd l of None \<Rightarrow> True | Some r \<Rightarrow> r \<noteq> FlatRegion) lm"

text \<open>
  The net has a shape on a mapped layer: the shapes that the delivery without recursion
  finds for the net's cluster on one of the layers are not none.
\<close>

definition net_has_shapes :: "netlist option \<Rightarrow> ctree \<Rightarrow> cplx_trans \<Rightarrow> lmap \<Rightarrow> bool" where
  "net_has_shapes nl node tr lm =
     list_ex (\<lambda>l. case snd l of
                None \<Rightarrow> False
              | Some r \<Rightarrow>
                  (case layer_of r of
                     Inl e \<Rightarrow> False
                   | Inr lid \<Rightarrow> flat_node nl (c_cell node) tr lid trans_unit node \<noteq> [])) lm"

text \<open>
  The placement of a child's cell for a connection with the instance transformation
  \<open>inst_trans\<close>, under the running transformation \<open>tr\<close>: \<open>tr_wo_mag * inst_trans\<close>,
  transformed into the system of \<open>tr_mag\<close>. \<open>child_insts\<close> are the instances that the
  loop over the connections makes, read from the cell map it leaves.
\<close>

definition placement :: "cplx_trans \<Rightarrow> cplx_trans \<Rightarrow> cplx_trans" where
  "placement tr inst_trans =
     transform_into (trans_of_mag (t_mag tr))
       (trans_mult (trans_mult tr (trans_of_mag (1 / t_mag tr))) inst_trans)"

definition child_insts ::
  "cmap \<Rightarrow> cplx_trans \<Rightarrow> cplx_trans \<Rightarrow> (cplx_trans \<times> ctree) list \<Rightarrow> (nat \<times> cplx_trans) list" where
  "child_insts cm tr_wo_mag tr_mag conns =
     map (\<lambda>c. (the (map_of cm (conn_key c)), transform_into tr_mag (trans_mult tr_wo_mag (fst c))))
       (filter (\<lambda>c. map_of cm (conn_key c) \<noteq> Some cell_index_max) conns)"

text \<open>
  Two layouts agree but for the cells of \<open>X\<close>. The cells of the entries that were added
  to the cell map are those of the entries that stand for a cell.
\<close>

definition agree :: "nat set \<Rightarrow> layout \<Rightarrow> layout \<Rightarrow> bool" where
  "agree X a b =
     (ly_dbu a = ly_dbu b \<and> length (ly_cells a) = length (ly_cells b) \<and>
      (\<forall>i < length (ly_cells a). i \<notin> X \<longrightarrow> ly_cells a ! i = ly_cells b ! i))"

definition new_cells :: "cmap \<Rightarrow> cmap \<Rightarrow> nat list" where
  "new_cells cm cm1 = map snd (filter (\<lambda>e. snd e \<noteq> cell_index_max) (drop (length cm) cm1))"

section \<open>Concrete inputs\<close>

text \<open>Small inputs, on which the theorems below are evaluated.\<close>

definition ex_dss :: dss where
  "ex_dss = \<lparr>dss_threads = 1, dss_max_area_ratio = 3, dss_max_vertex_count = 16,
     dss_text_enlargement = 0, dss_text_property_name = [], dss_layouts = 0, dss_layers = 0,
     dss_dbu = 1, dss_cell_name = (\<lambda>_. ''CELL''), dss_top = LCell 0 []\<rparr>"

definition ex_extract_nets :: net_extractor where
  "ex_extract_nets d c nl hc j = (None, d, nl, hc)"


definition ex_net :: net where
  "ex_net = \<lparr>net_circuit = Some 0, net_cluster_id = 1, net_expanded_name = ''N1'', net_pin_ids = []\<rparr>"

definition ex_layout :: layout where
  "ex_layout = \<lparr>ly_dbu = 1, ly_cells = [\<lparr>tc_name = ''TOP'', tc_shapes = [], tc_insts = []\<rparr>]\<rparr>"

text \<open>
  A layout of two cells: the top cell 0 places cell 1 at (10, 0). Cell 1 has the
  cluster 1, with the bounding box (0, 0; 2, 2); its net A has the pin 3, which the
  subcircuit X1 of the top circuit connects to the net VDD. The geometry is that of
  boxes under displacements; the clusters have their shapes on layer 0, and a test
  cluster interacts with them when the connectivity connects layer 0 with its layer.
\<close>

definition ex_m1 :: cplx_trans where
  "ex_m1 = \<lparr>t_mag = 1, t_m11 = 1, t_m12 = 0, t_m21 = 0, t_m22 = 1, t_dx = 10, t_dy = 0\<rparr>"

definition ex_box_geometry :: geometry where
  "ex_box_geometry =
     \<lparr>g_box_trans = (\<lambda>t b. \<lparr>b_left = b_left b + \<lfloor>t_dx t\<rfloor>, b_bottom = b_bottom b + \<lfloor>t_dy t\<rfloor>,
                              b_right = b_right b + \<lfloor>t_dx t\<rfloor>, b_top = b_top b + \<lfloor>t_dy t\<rfloor>\<rparr>),
      g_cluster_touches = (\<lambda>lc b. b_left (lc_bbox lc) \<le> b_right b \<and> b_left b \<le> b_right (lc_bbox lc)
                                 \<and> b_bottom (lc_bbox lc) \<le> b_top b \<and> b_bottom b \<le> b_top (lc_bbox lc)),
      g_interacts = (\<lambda>lc tcl t c. (0, tcl_layer tcl) \<in> set (conn_edges c)),
      g_array_touches = (\<lambda>ci ms b. True),
      g_member_touches = (\<lambda>ci m b. True),
      g_to_dbu = (\<lambda>dbu p. (\<lfloor>fst p / dbu\<rfloor>, \<lfloor>snd p / dbu\<rfloor>))\<rparr>"

definition ex_top_net :: net where
  "ex_top_net = \<lparr>net_circuit = Some 0, net_cluster_id = 9, net_expanded_name = ''VDD'', net_pin_ids = []\<rparr>"

definition ex_leaf_net :: net where
  "ex_leaf_net = \<lparr>net_circuit = Some 1, net_cluster_id = 1, net_expanded_name = ''A'', net_pin_ids = [3]\<rparr>"

definition ex_ref :: subcircuit where
  "ex_ref = \<lparr>sc_expanded_name = ''X1'', sc_circuit = Some 0, sc_circuit_ref = Some 1,
     sc_trans = ex_m1, sc_pin_nets = [(3, ex_top_net)]\<rparr>"

definition ex_leaf_circuit :: circuit where
  "ex_leaf_circuit = \<lparr>c_cell_index = 1, c_nets = [ex_leaf_net], c_pins = [\<lparr>pin_id = 3\<rparr>],
     c_pin_nets = [(3, ex_leaf_net)], c_subcircuits = [], c_parents = [0], c_refs = [ex_ref]\<rparr>"

definition ex_top_circuit :: circuit where
  "ex_top_circuit = \<lparr>c_cell_index = 0, c_nets = [ex_top_net], c_pins = [], c_pin_nets = [],
     c_subcircuits = [ex_ref], c_parents = [], c_refs = []\<rparr>"

definition ex_netlist :: netlist where
  "ex_netlist = \<lparr>nl_circuits = [ex_top_circuit, ex_leaf_circuit], nl_device_abstracts = [6]\<rparr>"


definition ex_tree :: ctree where
  "ex_tree =
     CNode 0 9 [(0, [1, 2])]
       [(ex_m1, CNode 5 1 [(0, [3])] []),
        (ex_m1, CNode 1 1 [(0, [4])] [(ex_m1, CNode 7 1 [(0, [5])] [])]),
        (ex_m1, CNode 6 2 [(1, [9])] [(ex_m1, CNode 9 1 [(0, [6])] [])])]"


definition ex_probe_clusters :: hier_clusters where
  "ex_probe_clusters =
     \<lparr>hc_local = (\<lambda>ci. if ci = 1
                         then [\<lparr>lc_id = 1, lc_bbox = \<lparr>b_left = 0, b_bottom = 0, b_right = 2, b_top = 2\<rparr>\<rparr>]
                         else []),
      hc_node = (\<lambda>k. if k = (0, 9) then Some ex_tree else None)\<rparr>"

text \<open>
  The extracted object on that layout: layer 0 is named M1 and connected to itself,
  layer 1 has been made without a name and is connected to nothing.
\<close>

definition ex_probe_state :: l2n where
  "ex_probe_state =
     \<lparr>m_netlist_extracted = True, mp_netlist = Some (0, ex_netlist), allocs = 1,
      m_dss = ex_dss\<lparr>dss_layouts := 1, dss_layers := 2, dss_top := LCell 0 [([ex_m1], LCell 1 [])]\<rparr>,
      m_conn = conn_connect 0 0 empty_connectivity, m_net_clusters = ex_probe_clusters,
      m_dlrefs = [DeepLayer 0],
      m_named_regions = [''M1'' \<mapsto> DeepLayer 0], m_name_of_layer = [0 \<mapsto> ''M1''],
      m_dummy_layer = None\<rparr>"

text \<open>
  A layer map of one deep layer, a cluster with no shape and no connection, and a
  cluster with no shape of its own above a circuit's cluster.
\<close>

definition ex_lmap :: lmap where
  "ex_lmap = [(0, Some (DeepRegion (DeepLayer 0)))]"

definition ex_empty_node :: ctree where
  "ex_empty_node = CNode 0 4 [] []"

definition ex_conn_node :: ctree where
  "ex_conn_node = CNode 0 8 [] [(ex_m1, CNode 1 1 [(0, [4])] [])]"

text \<open>
  A netlist for \<open>build_all_nets\<close>: the circuit of cell 1 has a second net B, with the
  pin 4, which the subcircuit X1 of the top circuit leaves open. The cluster of VDD has
  one shape and a connection to the cluster 1 of cell 1, the net A, which has one
  shape; the cluster of B has one shape. The target layout has the database unit 2 and a cell for each circuit.
\<close>

definition ex_b_net :: net where
  "ex_b_net = \<lparr>net_circuit = Some 1, net_cluster_id = 2, net_expanded_name = ''B'', net_pin_ids = [4]\<rparr>"

definition ex_leaf2 :: circuit where
  "ex_leaf2 = \<lparr>c_cell_index = 1, c_nets = [ex_leaf_net, ex_b_net],
     c_pins = [\<lparr>pin_id = 3\<rparr>, \<lparr>pin_id = 4\<rparr>],
     c_pin_nets = [(3, ex_leaf_net), (4, ex_b_net)], c_subcircuits = [], c_parents = [0],
     c_refs = [ex_ref]\<rparr>"

definition ex_netlist2 :: netlist where
  "ex_netlist2 = \<lparr>nl_circuits = [ex_top_circuit, ex_leaf2], nl_device_abstracts = []\<rparr>"

definition ex_build_clusters :: hier_clusters where
  "ex_build_clusters =
     \<lparr>hc_local = (\<lambda>ci. []),
      hc_node = (\<lambda>k. if k = (0, 9) then Some (CNode 0 9 [(0, [1])] [(ex_m1, CNode 1 1 [(0, [4])] [])])
                      else if k = (1, 1) then Some (CNode 1 1 [(0, [4])] [])
                      else if k = (1, 2) then Some (CNode 1 2 [(0, [7])] [])
                      else None)\<rparr>"

definition ex_build_state :: l2n where
  "ex_build_state =
     ex_probe_state\<lparr>mp_netlist := Some (0, ex_netlist2), m_net_clusters := ex_build_clusters\<rparr>"

definition ex_cell_mapping :: "(nat \<times> nat) list" where
  "ex_cell_mapping = [(0, 0), (1, 1)]"

definition ex_target :: layout where
  "ex_target = \<lparr>ly_dbu = 2, ly_cells = [\<lparr>tc_name = ''TOP'', tc_shapes = [], tc_insts = []\<rparr>,
     \<lparr>tc_name = ''LEAF'', tc_shapes = [], tc_insts = []\<rparr>]\<rparr>"

section \<open>The state machine, the layer registry and the netlist pointer\<close>

lemma ensure_netlist_extracted [simp]:
  "m_netlist_extracted (ensure_netlist s) = m_netlist_extracted s"
  by (simp add: ensure_netlist_def split: option.splits)

lemma register_layer_extracted [simp]:
  "m_netlist_extracted (snd (register_layer r n s)) = m_netlist_extracted s"
  by (simp add: register_layer_def is_persisted_def name_of_region_def layer_of_def Let_def
      split: region.splits option.splits sum.splits)

lemma make_layer_snd:
  "snd (make_layer n s) =
     (if n \<noteq> [] then snd (register_layer (DeepRegion (fst (dss_create_layer (m_dss s)))) n
                           (s\<lparr>m_dss := snd (dss_create_layer (m_dss s))\<rparr>))
      else s\<lparr>m_dss := snd (dss_create_layer (m_dss s))\<rparr>)"
  by (cases "register_layer (DeepRegion (fst (dss_create_layer (m_dss s)))) n
               (s\<lparr>m_dss := snd (dss_create_layer (m_dss s))\<rparr>)")
     (auto simp: make_layer_def Let_def split: prod.splits sum.splits)

lemma make_layer_extracted [simp]:
  "m_netlist_extracted (snd (make_layer n s)) = m_netlist_extracted s"
  by (simp add: make_layer_snd)

lemma step_keeps_extracted:
  "m_netlist_extracted s \<Longrightarrow> m_netlist_extracted (step X s c)"
  by (cases c)
     (simp_all add: set_threads_def set_area_ratio_def set_max_vertex_count_def
        make_layer_index_def make_text_layer_def make_polygon_layer_def
        extract_devices_def connect_def connect2_def connect_global_def global_net_id_def
        extract_netlist_def set_netlist_extracted_def ensure_internal_layout_def
        make_netlist_def Let_def split: prod.splits option.splits sum.splits)

lemma run_keeps_extracted:
  "m_netlist_extracted s \<Longrightarrow> m_netlist_extracted (run X s cs)"
  unfolding run_def
  by (induction cs arbitrary: s) (simp_all add: step_keeps_extracted)

lemma step_keeps_building:
  "\<not> marks_extracted c \<Longrightarrow> \<not> m_netlist_extracted s \<Longrightarrow> \<not> m_netlist_extracted (step X s c)"
  by (cases c)
     (simp_all add: set_threads_def set_area_ratio_def set_max_vertex_count_def
        make_layer_index_def make_text_layer_def make_polygon_layer_def
        extract_devices_def connect_def connect2_def connect_global_def global_net_id_def
        ensure_internal_layout_def
        make_netlist_def Let_def split: prod.splits option.splits sum.splits)

lemma run_keeps_building:
  "list_all (\<lambda>c. \<not> marks_extracted c) cs \<Longrightarrow> \<not> m_netlist_extracted s
    \<Longrightarrow> \<not> m_netlist_extracted (run X s cs)"
  unfolding run_def
  by (induction cs arbitrary: s) (simp_all add: step_keeps_building)

lemma extract_netlist_success:
  "fst (extract_netlist X j s) = Inr () \<Longrightarrow> m_netlist_extracted (snd (extract_netlist X j s))"
  by (auto simp: extract_netlist_def Let_def split: if_splits option.splits prod.splits)


text \<open>
  Claim C1, as the code has it. Once \<open>extract_netlist\<close> has succeeded, whatever calls
  follow, each of \<open>connect (region)\<close>, \<open>connect (a, b)\<close>, \<open>connect_global\<close>,
  \<open>extract_devices\<close> and \<open>extract_netlist\<close> throws "The netlist has already been
  extracted" and changes nothing. And in a session that has made no call of
  \<open>extract_netlist\<close> and no call of \<open>set_netlist_extracted\<close>, each of \<open>build_net\<close>,
  \<open>build_all_nets\<close> and \<open>probe_net\<close> with a point in database units throws "The netlist
  has not been extracted yet"; \<open>probe_net\<close> with a point in micron units, which asks
  for the internal layout first, throws the same once the store holds its layout and
  fails the assertion on the layout before.
\<close>

theorem state_machine_one_way:
  "(fst (extract_netlist X j s) = Inr () \<longrightarrow>
      (let t = run X (snd (extract_netlist X j s)) cs
       in connect r t = (Inl (Exception msg_already_extracted), t) \<and>
          connect2 a b t = (Inl (Exception msg_already_extracted), t) \<and>
          connect_global r gn t = (Inl (Exception msg_already_extracted), t) \<and>
          extract_devices ex layers t = (Inl (Exception msg_already_extracted), t) \<and>
          extract_netlist X j' t = (Inl (Exception msg_already_extracted), t)))
   \<and> (list_all (\<lambda>c. \<not> marks_extracted c) cs' \<longrightarrow>
      (let t = run X (l2n_init d) cs'
       in build_net t n target tc lm cp dp = Inl (Exception msg_not_extracted) \<and>
          build_all_nets t cm target lm ncp ccp dcp = Inl (Exception msg_not_extracted) \<and>
          probe_net G t r' pt = Inl (Exception msg_not_extracted) \<and>
          probe_net_dpoint G t r' dpt =
            (if dss_layouts (m_dss t) = 0 then Inl AssertionFailed
             else Inl (Exception msg_not_extracted))))"
proof (intro conjI impI)
  assume ok: "fst (extract_netlist X j s) = Inr ()"
  have "m_netlist_extracted (run X (snd (extract_netlist X j s)) cs)"
    by (rule run_keeps_extracted) (rule extract_netlist_success [OF ok])
  then show "let t = run X (snd (extract_netlist X j s)) cs
       in connect r t = (Inl (Exception msg_already_extracted), t) \<and>
          connect2 a b t = (Inl (Exception msg_already_extracted), t) \<and>
          connect_global r gn t = (Inl (Exception msg_already_extracted), t) \<and>
          extract_devices ex layers t = (Inl (Exception msg_already_extracted), t) \<and>
          extract_netlist X j' t = (Inl (Exception msg_already_extracted), t)"
    by (simp add: Let_def connect_def connect2_def connect_global_def extract_devices_def
        extract_netlist_def)
next
  assume "list_all (\<lambda>c. \<not> marks_extracted c) cs'"
  then have "\<not> m_netlist_extracted (run X (l2n_init d) cs')"
    by (rule run_keeps_building) (simp add: l2n_init_def)
  then show "let t = run X (l2n_init d) cs'
       in build_net t n target tc lm cp dp = Inl (Exception msg_not_extracted) \<and>
          build_all_nets t cm target lm ncp ccp dcp = Inl (Exception msg_not_extracted) \<and>
          probe_net G t r' pt = Inl (Exception msg_not_extracted) \<and>
          probe_net_dpoint G t r' dpt =
            (if dss_layouts (m_dss t) = 0 then Inl AssertionFailed
             else Inl (Exception msg_not_extracted))"
    by (simp add: Let_def build_net_def build_all_nets_def probe_net_def probe_net_dpoint_def
        internal_layout_def)
qed

text \<open>
  On a concrete session: extraction succeeds on the fresh object and a later
  \<open>connect\<close> throws. In a session of \<open>make_layer\<close> and \<open>make_netlist\<close> the store holds
  its layout, and \<open>build_net\<close> and \<open>probe_net\<close> with a micron point throw the state
  error. On the fresh object \<open>probe_net\<close> with a micron point fails the assertion.
\<close>

theorem state_machine_one_way_witness:
  "fst (extract_netlist ex_extract_nets False (l2n_init ex_dss)) = Inr ()
   \<and> fst (connect (DeepRegion (DeepLayer 0))
        (run ex_extract_nets (snd (extract_netlist ex_extract_nets False (l2n_init ex_dss)))
           [MakeLayer ''M1'', MakeNetlist]))
     = Inl (Exception msg_already_extracted)
   \<and> list_all (\<lambda>c. \<not> marks_extracted c) [MakeLayer ''M1'', MakeNetlist]
   \<and> build_net (run ex_extract_nets (l2n_init ex_dss) [MakeLayer ''M1'', MakeNetlist])
        ex_net ex_layout 0 [] None None = Inl (Exception msg_not_extracted)
   \<and> probe_net_dpoint ex_box_geometry
        (run ex_extract_nets (l2n_init ex_dss) [MakeLayer ''M1'', MakeNetlist])
        (DeepRegion (DeepLayer 0)) (1, 1) = Inl (Exception msg_not_extracted)
   \<and> probe_net_dpoint ex_box_geometry (run ex_extract_nets (l2n_init ex_dss) [])
        (DeepRegion (DeepLayer 0)) (1, 1) = Inl AssertionFailed"
proof -
  have h1: "fst (extract_netlist ex_extract_nets False (l2n_init ex_dss)) = Inr ()"
    by (simp add: extract_netlist_def l2n_init_def ensure_netlist_def ex_extract_nets_def Let_def)
  have h2: "list_all (\<lambda>c. \<not> marks_extracted c) [MakeLayer ''M1'', MakeNetlist]"
    by simp
  have h3: "list_all (\<lambda>c. \<not> marks_extracted c) []"
    by simp
  have l1: "dss_layouts (m_dss (run ex_extract_nets (l2n_init ex_dss) [MakeLayer ''M1'', MakeNetlist])) = 1"
    by (simp add: run_def make_layer_def dss_create_layer_def l2n_init_def ex_dss_def Let_def
        register_layer_def is_persisted_def layer_of_def make_netlist_def ensure_netlist_def
        split: prod.splits)
  have l0: "dss_layouts (m_dss (run ex_extract_nets (l2n_init ex_dss) [])) = 0"
    by (simp add: run_def l2n_init_def ex_dss_def)
  from state_machine_one_way [where X = ex_extract_nets and j = False and s = "l2n_init ex_dss"
      and cs = "[MakeLayer ''M1'', MakeNetlist]" and r = "DeepRegion (DeepLayer 0)"
      and cs' = "[MakeLayer ''M1'', MakeNetlist]" and d = ex_dss and n = ex_net
      and target = ex_layout and tc = 0 and lm = "[]" and cp = None and dp = None
      and G = ex_box_geometry and r' = "DeepRegion (DeepLayer 0)" and dpt = "(1, 1)"] h1 h2
  have a: "fst (connect (DeepRegion (DeepLayer 0))
        (run ex_extract_nets (snd (extract_netlist ex_extract_nets False (l2n_init ex_dss)))
           [MakeLayer ''M1'', MakeNetlist]))
     = Inl (Exception msg_already_extracted)"
    and b: "build_net (run ex_extract_nets (l2n_init ex_dss) [MakeLayer ''M1'', MakeNetlist])
        ex_net ex_layout 0 [] None None = Inl (Exception msg_not_extracted)"
    and c: "probe_net_dpoint ex_box_geometry
        (run ex_extract_nets (l2n_init ex_dss) [MakeLayer ''M1'', MakeNetlist])
        (DeepRegion (DeepLayer 0)) (1, 1) = Inl (Exception msg_not_extracted)"
    by (simp_all add: Let_def l1)
  from state_machine_one_way [where X = ex_extract_nets and j = False and s = "l2n_init ex_dss"
      and cs' = "[]" and d = ex_dss and G = ex_box_geometry and r' = "DeepRegion (DeepLayer 0)"
      and dpt = "(1, 1)"] h3
  have e: "probe_net_dpoint ex_box_geometry (run ex_extract_nets (l2n_init ex_dss) [])
        (DeepRegion (DeepLayer 0)) (1, 1) = Inl AssertionFailed"
    by (simp add: Let_def l0)
  from h1 a h2 b c e show ?thesis
    by simp
qed

text \<open>
  The claim as stated has \<open>build_net\<close> fail in every session in which \<open>extract_netlist\<close>
  has not run. \<open>set_netlist_extracted\<close> sets the flag too: after \<open>make_layer\<close>, which
  gives the store its layout, and \<open>set_netlist_extracted\<close>, \<open>build_net\<close> passes the check
  and builds (here the net has no shapes, and the target comes back).
\<close>

theorem build_before_extract_counterexample:
  "build_net (run ex_extract_nets (l2n_init ex_dss) [MakeLayer ''M1'', SetNetlistExtracted])
        ex_net ex_layout 0 [] None None = Inr ex_layout"
proof -
  let ?t = "run ex_extract_nets (l2n_init ex_dss) [MakeLayer ''M1'', SetNetlistExtracted]"
  have f: "m_netlist_extracted ?t" "dss_layouts (m_dss ?t) = 1" "dss_dbu (m_dss ?t) = 1"
    "m_net_clusters ?t = empty_clusters"
    by (simp_all add: run_def make_layer_def dss_create_layer_def l2n_init_def ex_dss_def Let_def
        register_layer_def is_persisted_def layer_of_def set_netlist_extracted_def
        split: prod.splits)
  have n: "net_circuit ex_net = Some 0"
    by (simp add: ex_net_def)
  show ?thesis
    by (simp add: build_net_def internal_layout_def f build_net_rec_net_def n
        cluster_node_def empty_clusters_def net_cell_block_def ex_layout_def)
qed


text \<open>
  Claim C9. \<open>register_layer (region, n)\<close> throws "Layer name is already used: n", and
  changes nothing, whenever \<open>n\<close> is in the registry of named regions. Otherwise, for a
  region that is persisted under another name \<open>prev\<close>, the call succeeds, \<open>prev\<close> is no
  longer in the registry, \<open>n\<close> names the region's deep layer, the name of the layer id is
  \<open>n\<close>, and \<open>name (region)\<close> is \<open>n\<close>. For a region that is not persisted the same
  holds, with nothing removed.
\<close>

theorem register_layer_renames:
  "(m_named_regions s n \<noteq> None \<longrightarrow>
      register_layer r n s = (Inl (Exception (''Layer name is already used: '' @ n)), s))
   \<and> (m_named_regions s n = None \<and> m_name_of_layer s l = Some prev \<and> prev \<noteq> n \<longrightarrow>
        (let s' = snd (register_layer (DeepRegion (DeepLayer l)) n s)
         in fst (register_layer (DeepRegion (DeepLayer l)) n s) = Inr () \<and>
            m_named_regions s' = (m_named_regions s)(prev := None, n \<mapsto> DeepLayer l) \<and>
            m_named_regions s' prev = None \<and>
            m_named_regions s' n = Some (DeepLayer l) \<and>
            m_name_of_layer s' = (m_name_of_layer s)(l \<mapsto> n) \<and>
            name_of_region s' (DeepRegion (DeepLayer l)) = Inr n))
   \<and> (m_named_regions s n = None \<and> m_name_of_layer s l = None \<longrightarrow>
        (let s' = snd (register_layer (DeepRegion (DeepLayer l)) n s)
         in fst (register_layer (DeepRegion (DeepLayer l)) n s) = Inr () \<and>
            m_named_regions s' = (m_named_regions s)(n \<mapsto> DeepLayer l) \<and>
            m_name_of_layer s' = (m_name_of_layer s)(l \<mapsto> n) \<and>
            name_of_region s' (DeepRegion (DeepLayer l)) = Inr n))"
  by (simp add: register_layer_def is_persisted_def name_of_region_def layer_of_def Let_def)

text \<open>
  On the fresh object: layer 0 is registered as A; A is then refused for layer 1;
  registering layer 0 as B drops A.
\<close>

theorem register_layer_renames_witness:
  "m_named_regions (snd (register_layer (DeepRegion (DeepLayer 0)) ''A'' (l2n_init ex_dss))) ''A''
     = Some (DeepLayer 0)
   \<and> register_layer (DeepRegion (DeepLayer 1)) ''A''
        (snd (register_layer (DeepRegion (DeepLayer 0)) ''A'' (l2n_init ex_dss)))
     = (Inl (Exception ''Layer name is already used: A''),
        snd (register_layer (DeepRegion (DeepLayer 0)) ''A'' (l2n_init ex_dss)))
   \<and> m_named_regions (snd (register_layer (DeepRegion (DeepLayer 0)) ''B''
        (snd (register_layer (DeepRegion (DeepLayer 0)) ''A'' (l2n_init ex_dss))))) ''A'' = None
   \<and> name_of_region (snd (register_layer (DeepRegion (DeepLayer 0)) ''B''
        (snd (register_layer (DeepRegion (DeepLayer 0)) ''A'' (l2n_init ex_dss)))))
        (DeepRegion (DeepLayer 0)) = Inr ''B''"
proof -
  let ?s0 = "l2n_init ex_dss"
  let ?s1 = "snd (register_layer (DeepRegion (DeepLayer 0)) ''A'' ?s0)"
  have n0: "m_named_regions ?s0 = Map.empty" "m_name_of_layer ?s0 = Map.empty"
    by (simp_all add: l2n_init_def)
  have a0: "m_named_regions ?s0 ''A'' = None \<and> m_name_of_layer ?s0 0 = None"
    by (simp add: n0)
  from register_layer_renames [of ?s0 "''A''" _ 0] a0
  have s1: "m_named_regions ?s1 = (m_named_regions ?s0)(''A'' \<mapsto> DeepLayer 0)"
    "m_name_of_layer ?s1 = (m_name_of_layer ?s0)(0 \<mapsto> ''A'')"
    by (simp_all add: Let_def)
  have a1: "m_named_regions ?s1 ''A'' \<noteq> None"
    and a2: "m_named_regions ?s1 ''B'' = None \<and> m_name_of_layer ?s1 0 = Some ''A'' \<and> ''A'' \<noteq> ''B''"
    by (simp_all add: s1 n0)
  from register_layer_renames [of ?s1 "''A''" "DeepRegion (DeepLayer 1)"] a1
  have b: "register_layer (DeepRegion (DeepLayer 1)) ''A'' ?s1
      = (Inl (Exception ''Layer name is already used: A''), ?s1)"
    by simp
  from register_layer_renames [of ?s1 "''B''" _ 0 "''A''"] a2
  have c: "m_named_regions (snd (register_layer (DeepRegion (DeepLayer 0)) ''B'' ?s1)) ''A'' = None"
    "name_of_region (snd (register_layer (DeepRegion (DeepLayer 0)) ''B'' ?s1))
       (DeepRegion (DeepLayer 0)) = Inr ''B''"
    by (simp_all add: Let_def)
  show ?thesis
    using s1 b c by (simp add: n0)
qed


lemma register_layer_netlist [simp]:
  "mp_netlist (snd (register_layer r n s)) = mp_netlist s"
  by (simp add: register_layer_def is_persisted_def name_of_region_def layer_of_def Let_def
      split: region.splits option.splits sum.splits)

lemma make_layer_netlist [simp]:
  "mp_netlist (snd (make_layer n s)) = mp_netlist s"
  by (simp add: make_layer_snd)








section \<open>Probing\<close>



lemma find_upper_Some:
  "find_upper nl pn dtrans back rs = Some (uc, un) \<Longrightarrow>
     \<exists>r \<in> set rs. sc_trans r = dtrans \<and> circuit_ptr nl (sc_circuit r) = Some uc
       \<and> c_cell_index uc = back \<and> sc_net_for_pin r (pin_id pn) = Some un"
  by (induction rs) (auto split: option.splits if_splits)

lemma find_upper_None:
  "find_upper nl pn dtrans back rs = None \<Longrightarrow> r \<in> set rs \<Longrightarrow> sc_trans r = dtrans \<Longrightarrow>
     circuit_ptr nl (sc_circuit r) = Some uc \<Longrightarrow> c_cell_index uc = back \<Longrightarrow>
     sc_net_for_pin r (pin_id pn) = None"
  by (induction rs) (auto split: option.splits if_splits)

lemma climb_sound:
  "(climb nl dt dti c n inst_path cell_indexes = Inr (c', n') \<longrightarrow>
      (\<exists>path' cells'.
         (climb_step nl dt dti)\<^sup>*\<^sup>* (c, n, inst_path, cell_indexes) (c', n', path', cells')
         \<and> (\<forall>x. \<not> climb_step nl dt dti (c', n', path', cells') x)))
   \<and> (climb nl dt dti c n inst_path cell_indexes = Inl e \<longrightarrow>
        e = AssertionFailed \<and>
        (\<exists>c' n' path' cells'.
           (climb_step nl dt dti)\<^sup>*\<^sup>* (c, n, inst_path, cell_indexes) (c', n', path', cells')
           \<and> path' \<noteq> [] \<and> pin_count n' > 0 \<and> pin_by_id c' (hd (net_pin_ids n')) = None))"
proof (induction nl dt dti c n inst_path cell_indexes rule: climb.induct)
  case (1 nl dt dti c n inst_path cell_indexes)
  let ?st = "(c, n, inst_path, cell_indexes)"
  let ?dtrans = "trans_mult (trans_mult dt (ie_trans (last inst_path))) dti"
  show ?case
  proof (cases "inst_path \<noteq> [] \<and> pin_count n > 0")
    case False
    then have res: "climb nl dt dti c n inst_path cell_indexes = Inr (c, n)"
      by (subst climb.simps) auto
    from False have "\<forall>x. \<not> climb_step nl dt dti ?st x"
      by (auto elim: climb_step.cases)
    with res show ?thesis
      by auto
  next
    case True
    show ?thesis
    proof (cases "pin_by_id c (hd (net_pin_ids n))")
      case None
      with True have res: "climb nl dt dti c n inst_path cell_indexes = Inl AssertionFailed"
        by (subst climb.simps) auto
      from True None show ?thesis
        unfolding res by auto
    next
      case (Some pn)
      show ?thesis
      proof (cases "find_upper nl pn ?dtrans (last (butlast cell_indexes)) (c_refs c)")
        case None
        with True Some have res: "climb nl dt dti c n inst_path cell_indexes = Inr (c, n)"
          by (subst climb.simps) auto
        have "\<forall>x. \<not> climb_step nl dt dti ?st x"
        proof (intro allI notI)
          fix x assume "climb_step nl dt dti ?st x"
          then show False
            using find_upper_None [OF None] Some
            by (auto elim!: climb_step.cases)
        qed
        with res show ?thesis
          by auto
      next
        case up_def: (Some up)
        obtain uc un where up: "up = (uc, un)" by (cases up)
        from True Some up_def up
        have res: "climb nl dt dti c n inst_path cell_indexes
            = climb nl dt dti uc un (butlast inst_path) (butlast cell_indexes)"
          by (subst climb.simps) auto
        from find_upper_Some [OF up_def [unfolded up]] True Some
        have step: "climb_step nl dt dti ?st (uc, un, butlast inst_path, butlast cell_indexes)"
          by (auto intro: climb_step.intros)
        from "1.IH" [OF True Some up_def] up
        have ih: "(climb nl dt dti uc un (butlast inst_path) (butlast cell_indexes) = Inr (c', n') \<longrightarrow>
            (\<exists>path' cells'.
               (climb_step nl dt dti)\<^sup>*\<^sup>* (uc, un, butlast inst_path, butlast cell_indexes) (c', n', path', cells')
               \<and> (\<forall>x. \<not> climb_step nl dt dti (c', n', path', cells') x)))
          \<and> (climb nl dt dti uc un (butlast inst_path) (butlast cell_indexes) = Inl e \<longrightarrow>
            e = AssertionFailed \<and>
            (\<exists>c' n' path' cells'.
               (climb_step nl dt dti)\<^sup>*\<^sup>* (uc, un, butlast inst_path, butlast cell_indexes) (c', n', path', cells')
               \<and> path' \<noteq> [] \<and> pin_count n' > 0 \<and> pin_by_id c' (hd (net_pin_ids n')) = None))"
          by simp
        show ?thesis
          unfolding res using ih step
          by (meson converse_rtranclp_into_rtranclp)
      qed
    qed
  qed
qed

lemma ex_test_box:
  "test_box (11, 1) = \<lparr>b_left = 10, b_bottom = 0, b_right = 12, b_top = 2\<rparr>"
  "test_box (50, 50) = \<lparr>b_left = 49, b_bottom = 49, b_right = 51, b_top = 51\<rparr>"
  "test_box (2147483647, 1) = \<lparr>b_left = - 2147483648, b_bottom = 0, b_right = 2147483646, b_top = 2\<rparr>"
  by (simp_all add: test_box_def box_of_points_def coord_def)

lemma ex_search_hit:
  "search_net ex_box_geometry ex_probe_state (probe_cluster (DeepRegion (DeepLayer 0)) (11, 1))
     trans_unit (dss_top (m_dss ex_probe_state)) []
   = (1, [\<lparr>ie_cell_index = 1, ie_trans = ex_m1\<rparr>])"
  by (simp add: ex_box_geometry_def ex_probe_state_def probe_cluster_def ex_test_box trans_unit_def
      trans_of_mag_def ex_probe_clusters_def ex_m1_def trans_mult_def trans_inverted_def Let_def
      conn_connect_def empty_connectivity_def)



lemma probe_net_found:
  assumes "m_netlist_extracted s" and "netlist_get s = Some nl"
    and "search_net G s (probe_cluster (DeepRegion dl) pt) trans_unit (dss_top (m_dss s)) [] = (cid, rp)"
    and "cid > 0"
    and "circuit_by_cell_index nl (last (lcell_index (dss_top (m_dss s)) # map ie_cell_index (rev rp))) = Some c"
    and "net_by_cluster_id c cid = Some n"
  shows "probe_net G s (DeepRegion dl) pt =
     (case climb nl (trans_of_mag (dss_dbu (m_dss s))) (trans_inverted (trans_of_mag (dss_dbu (m_dss s))))
             c n (rev rp) (lcell_index (dss_top (m_dss s)) # map ie_cell_index (rev rp)) of
        Inl e \<Rightarrow> Inl e
      | Inr r \<Rightarrow> Inr (Some r))"
  using assms by (simp add: probe_net_def layer_of_def Let_def probe_cluster_def)

lemma ex_probe_state_fields:
  "m_netlist_extracted ex_probe_state"
  "netlist_get ex_probe_state = Some ex_netlist"
  "dss_dbu (m_dss ex_probe_state) = 1"
  "lcell_index (dss_top (m_dss ex_probe_state)) = 0"
  "m_name_of_layer ex_probe_state 1 = None"
  "dss_layouts (m_dss ex_probe_state) = 1"
  "m_name_of_layer ex_probe_state (Suc 0) = None"
  by (simp_all add: ex_probe_state_def netlist_get_def ex_dss_def)

lemma ex_netlist_lookup:
  "circuit_by_cell_index ex_netlist 1 = Some ex_leaf_circuit"
  "circuit_by_cell_index ex_netlist 0 = Some ex_top_circuit"
  "net_by_cluster_id ex_leaf_circuit 1 = Some ex_leaf_net"
  by (simp_all add: ex_netlist_def circuit_by_cell_index_def ex_top_circuit_def ex_leaf_circuit_def
      net_by_cluster_id_def ex_leaf_net_def)

lemma ex_climb:
  "climb ex_netlist (trans_of_mag 1) (trans_inverted (trans_of_mag 1)) ex_leaf_circuit ex_leaf_net
     [\<lparr>ie_cell_index = 1, ie_trans = ex_m1\<rparr>] [0, 1] = Inr (ex_top_circuit, ex_top_net)"
proof -
  have dt: "trans_mult (trans_mult (trans_of_mag 1) ex_m1) (trans_inverted (trans_of_mag 1)) = ex_m1"
    by (simp add: trans_of_mag_def trans_mult_def trans_inverted_def ex_m1_def)
  have up: "find_upper ex_netlist \<lparr>pin_id = 3\<rparr> ex_m1 0 (c_refs ex_leaf_circuit)
      = Some (ex_top_circuit, ex_top_net)"
    by (simp add: ex_leaf_circuit_def ex_ref_def circuit_ptr_def ex_netlist_lookup sc_net_for_pin_def
        ex_top_circuit_def)
  have pn: "pin_by_id ex_leaf_circuit (hd (net_pin_ids ex_leaf_net)) = Some \<lparr>pin_id = 3\<rparr>"
    "pin_count ex_leaf_net = 1" "pin_count ex_top_net = 0"
    by (simp_all add: pin_by_id_def ex_leaf_circuit_def ex_leaf_net_def pin_count_def ex_top_net_def)
  have top: "climb ex_netlist (trans_of_mag 1) (trans_inverted (trans_of_mag 1)) ex_top_circuit
      ex_top_net [] [0] = Inr (ex_top_circuit, ex_top_net)"
    by (subst climb.simps) simp
  show ?thesis
    by (subst climb.simps) (simp add: pn dt up top)
qed

lemma ex_probe_result:
  "probe_net ex_box_geometry ex_probe_state (DeepRegion (DeepLayer 0)) (11, 1)
     = Inr (Some (ex_top_circuit, ex_top_net))"
proof -
  have c: "circuit_by_cell_index ex_netlist
      (last (lcell_index (dss_top (m_dss ex_probe_state))
             # map ie_cell_index (rev [\<lparr>ie_cell_index = 1, ie_trans = ex_m1\<rparr>]))) = Some ex_leaf_circuit"
    using ex_netlist_lookup(1) by simp
  have "probe_net ex_box_geometry ex_probe_state (DeepRegion (DeepLayer 0)) (11, 1) =
     (case climb ex_netlist (trans_of_mag 1) (trans_inverted (trans_of_mag 1)) ex_leaf_circuit ex_leaf_net
             [\<lparr>ie_cell_index = 1, ie_trans = ex_m1\<rparr>] [0, 1] of
        Inl e \<Rightarrow> Inl e
      | Inr r \<Rightarrow> Inr (Some r))"
    using probe_net_found [OF ex_probe_state_fields(1,2) ex_search_hit _ c ex_netlist_lookup(3)]
    by (simp add: ex_probe_state_fields)
  then show ?thesis
    by (simp only: ex_climb sum.case)
qed








text \<open>
  At the largest coordinate the sum wraps, and the test box spans the whole range: the
  cluster of cell 1 is found from there.
\<close>

lemma ex_probe_wrapped:
  "fst (search_net ex_box_geometry ex_probe_state
          (probe_cluster (DeepRegion (DeepLayer 0)) (2147483647, 1))
          trans_unit (dss_top (m_dss ex_probe_state)) []) = 1"
  by (simp add: ex_box_geometry_def ex_probe_state_def probe_cluster_def ex_test_box trans_unit_def
      trans_of_mag_def ex_probe_clusters_def ex_m1_def trans_mult_def trans_inverted_def Let_def
      conn_connect_def empty_connectivity_def)

text \<open>
  Claim C4. When \<open>search_net\<close> has found a cluster and the leaf circuit and its net are
  resolved, the result of \<open>probe_net\<close> is reached from the leaf net by steps of the
  climb, and no step of the climb is possible from it: the instance path is used up,
  or the net has no pin, or no referencing subcircuit with the transformation and the
  parent cell connects the pin. \<open>probe_net\<close> does not return the null net then; it
  fails only by the assertion, at a net whose first pin is not a pin of its circuit.
\<close>

theorem probe_net_climbs:
  assumes "m_netlist_extracted s" and "netlist_get s = Some nl"
    and "search_net G s (probe_cluster (DeepRegion dl) pt) trans_unit (dss_top (m_dss s)) [] = (cid, rp)"
    and "cid > 0"
    and "cells = lcell_index (dss_top (m_dss s)) # map ie_cell_index (rev rp)"
    and "circuit_by_cell_index nl (last cells) = Some c"
    and "net_by_cluster_id c cid = Some n"
    and "dt = trans_of_mag (dss_dbu (m_dss s))"
  shows "(probe_net G s (DeepRegion dl) pt = Inr (Some (c', n')) \<longrightarrow>
           (\<exists>path' cells'.
              (climb_step nl dt (trans_inverted dt))\<^sup>*\<^sup>* (c, n, rev rp, cells) (c', n', path', cells')
              \<and> (\<forall>x. \<not> climb_step nl dt (trans_inverted dt) (c', n', path', cells') x)))
       \<and> probe_net G s (DeepRegion dl) pt \<noteq> Inr None
       \<and> (probe_net G s (DeepRegion dl) pt = Inl e \<longrightarrow>
            e = AssertionFailed \<and>
            (\<exists>c' n' path' cells'.
               (climb_step nl dt (trans_inverted dt))\<^sup>*\<^sup>* (c, n, rev rp, cells) (c', n', path', cells')
               \<and> path' \<noteq> [] \<and> pin_count n' > 0 \<and> pin_by_id c' (hd (net_pin_ids n')) = None))"
proof -
  have p: "probe_net G s (DeepRegion dl) pt =
     (case climb nl dt (trans_inverted dt) c n (rev rp) cells of
        Inl e \<Rightarrow> Inl e
      | Inr r \<Rightarrow> Inr (Some r))"
    using assms probe_net_found [of s nl G dl pt cid rp c n] by simp
  show ?thesis
  proof (cases "climb nl dt (trans_inverted dt) c n (rev rp) cells")
    case (Inl e')
    with p climb_sound [of nl dt "trans_inverted dt" c n "rev rp" cells c' n' e']
    show ?thesis by auto
  next
    case (Inr r)
    obtain rc rn where r: "r = (rc, rn)" by (cases r)
    from Inr r p climb_sound [of nl dt "trans_inverted dt" c n "rev rp" cells rc rn e]
    show ?thesis by auto
  qed
qed

text \<open>
  On the layout of two cells: the point (11, 1) lies on cluster 1 of cell 1, whose net
  A is connected through pin 3 of X1 to VDD in the top circuit, where the climb ends.
\<close>

theorem probe_net_climbs_witness:
  "probe_net ex_box_geometry ex_probe_state (DeepRegion (DeepLayer 0)) (11, 1)
     = Inr (Some (ex_top_circuit, ex_top_net))
   \<and> (\<exists>path' cells'.
        (climb_step ex_netlist (trans_of_mag 1) (trans_inverted (trans_of_mag 1)))\<^sup>*\<^sup>*
          (ex_leaf_circuit, ex_leaf_net, [\<lparr>ie_cell_index = 1, ie_trans = ex_m1\<rparr>], [0, 1])
          (ex_top_circuit, ex_top_net, path', cells')
        \<and> (\<forall>x. \<not> climb_step ex_netlist (trans_of_mag 1) (trans_inverted (trans_of_mag 1))
                   (ex_top_circuit, ex_top_net, path', cells') x))"
proof -
  have cells: "[0, 1] = lcell_index (dss_top (m_dss ex_probe_state))
      # map ie_cell_index (rev [\<lparr>ie_cell_index = 1, ie_trans = ex_m1\<rparr>])"
    by (simp add: ex_probe_state_fields)
  have c: "circuit_by_cell_index ex_netlist (last [0, 1]) = Some ex_leaf_circuit"
    using ex_netlist_lookup(1) by simp
  have dt: "trans_of_mag 1 = trans_of_mag (dss_dbu (m_dss ex_probe_state))"
    by (simp add: ex_probe_state_fields)
  from probe_net_climbs [OF ex_probe_state_fields(1,2) ex_search_hit _ cells c ex_netlist_lookup(3) dt,
      of ex_top_circuit ex_top_net] ex_probe_result
  show ?thesis
    by simp
qed

section \<open>Delivery of the shapes of a net\<close>

lemma loop_Nil [simp]: "nonrecursive_loop nl ci tr prev [] to = (True, to)"
  by (simp add: nonrecursive_loop.simps)

lemma loop_skip:
  "prev_ok nl ci prev \<Longrightarrow> entry_blocked nl ci e \<Longrightarrow>
     nonrecursive_loop nl ci tr prev (e # es) to =
       nonrecursive_loop nl ci tr prev (rci_skip_cell (e # es)) to"
  by (subst nonrecursive_loop.simps) (auto simp: Let_def prev_ok_def entry_blocked_def)

lemma loop_deliver:
  "\<not> entry_blocked nl ci e \<Longrightarrow>
     nonrecursive_loop nl ci tr prev (e # es) (Shapes acc) =
       nonrecursive_loop nl ci tr (e_cell e) es (Shapes (acc @ [placed tr e]))"
  by (subst nonrecursive_loop.simps)
     (auto simp: Let_def entry_blocked_def deliver_shape_def placed_def)

lemma loop_deliver_ok:
  "\<not> entry_blocked nl ci e \<Longrightarrow> prev_ok nl ci (e_cell e)"
  by (auto simp: entry_blocked_def prev_ok_def)

lemma entries_path:
  "e \<in> set (rci_entries layer p T node) \<Longrightarrow> prefix p (e_path e)"
  "e \<in> set (rci_conns layer p i T cs) \<Longrightarrow> \<exists>j\<ge>i. prefix (p @ [j]) (e_path e)"
proof (induction layer p T node and layer p i T cs arbitrary: e and e
    rule: rci_entries_rci_conns.induct)
  case (1 layer p T ci cid shp conns)
  then show ?case
    by (auto simp: prefix_def) 
next
  case (2 layer p i T)
  then show ?case by simp
next
  case (3 layer p i T c cs)
  from "3.prems" consider "e \<in> set (rci_entries layer (p @ [i]) (trans_mult T (fst c)) (snd c))"
    | "e \<in> set (rci_conns layer p (Suc i) T cs)"
    by auto
  then show ?case
  proof cases
    case 1
    with "3.IH"(1) show ?thesis by blast
  next
    case 2
    with "3.IH"(2) obtain j where "j \<ge> Suc i" "prefix (p @ [j]) (e_path e)" by blast
    then show ?thesis
      by (intro exI [of _ j]) simp
  qed
qed


lemma sibling_paths:
  "prefix (p @ [i]) x \<Longrightarrow> prefix (p @ [j]) x \<Longrightarrow> i = j"
  by (auto simp: prefix_def append_eq_append_conv2 Cons_eq_append_conv)

lemma skip_subtree:
  assumes "\<forall>e' \<in> set xs. prefix (e_path e) (e_path e')"
    and "\<forall>e' \<in> set rest. \<not> prefix (e_path e) (e_path e')"
  shows "rci_skip_cell (e # xs @ rest) = rest"
proof -
  have "dropWhile (\<lambda>e'. prefix (e_path e) (e_path e')) (xs @ rest)
      = dropWhile (\<lambda>e'. prefix (e_path e) (e_path e')) rest"
    using assms(1) by (simp add: dropWhile_append2)
  also have "\<dots> = rest"
    using assms(2) by (cases rest) simp_all
  finally show ?thesis
    by (simp add: rci_skip_cell_def)
qed

lemma loop_own:
  assumes "\<not> (c \<noteq> ci \<and> is_preserved nl c)" and "prev_ok nl ci prev"
  shows "\<exists>prev'. prev_ok nl ci prev' \<and>
     nonrecursive_loop nl ci tr prev
       (map (\<lambda>s. \<lparr>e_path = p, e_cell = c, e_trans = T, e_shape = s\<rparr>) xs @ tl0) (Shapes acc)
     = nonrecursive_loop nl ci tr prev' tl0 (Shapes (acc @ map (\<lambda>s. (trans_mult tr T, s)) xs))"
  using assms(2)
proof (induction xs arbitrary: prev acc)
  case Nil
  then show ?case by auto
next
  case (Cons x xs)
  let ?e = "\<lparr>e_path = p, e_cell = c, e_trans = T, e_shape = x\<rparr>"
  have nb: "\<not> entry_blocked nl ci ?e"
    using assms(1) by (simp add: entry_blocked_def)
  from Cons.IH [OF loop_deliver_ok [OF nb], of "acc @ [placed tr ?e]"]
  show ?case
    by (simp add: loop_deliver [OF nb] placed_def)
qed

lemma loop_subtree:
  "prev_ok nl ci prev \<Longrightarrow> \<forall>e \<in> set rest. \<not> prefix p (e_path e) \<Longrightarrow>
     \<exists>prev'. prev_ok nl ci prev' \<and>
       nonrecursive_loop nl ci tr prev (rci_entries layer p T node @ rest) (Shapes acc)
       = nonrecursive_loop nl ci tr prev' rest (Shapes (acc @ flat_node nl ci tr layer T node))"
  "prev_ok nl ci prev \<Longrightarrow> \<forall>e \<in> set rest. \<not> prefix p (e_path e) \<Longrightarrow>
     \<exists>prev'. prev_ok nl ci prev' \<and>
       nonrecursive_loop nl ci tr prev (rci_conns layer p i T cs @ rest) (Shapes acc)
       = nonrecursive_loop nl ci tr prev' rest (Shapes (acc @ flat_conns nl ci tr layer T cs))"
proof (induction layer p T node and layer p i T cs arbitrary: prev rest acc and prev rest acc
    rule: rci_entries_rci_conns.induct)
  case (1 layer p T c cid shp conns)
  let ?own = "map (\<lambda>s. \<lparr>e_path = p, e_cell = c, e_trans = T, e_shape = s\<rparr>) (shapes_on shp layer)"
  show ?case
  proof (cases "c \<noteq> ci \<and> is_preserved nl c")
    case blocked: True
    show ?thesis
    proof (cases "shapes_on shp layer")
      case Nil
      with "1.IH" [OF "1.prems", of acc] show ?thesis
        by simp
    next
      case (Cons x xs)
      let ?e = "\<lparr>e_path = p, e_cell = c, e_trans = T, e_shape = x\<rparr>"
      let ?under = "map (\<lambda>s. \<lparr>e_path = p, e_cell = c, e_trans = T, e_shape = s\<rparr>) xs
          @ rci_conns layer p 0 T conns"
      have b: "entry_blocked nl ci ?e"
        using blocked by (simp add: entry_blocked_def)
      have u: "\<forall>e' \<in> set ?under. prefix (e_path ?e) (e_path e')"
        using entries_path(2) [of _ layer p 0 T conns]
        by (auto dest!: append_prefixD)
      have r: "\<forall>e' \<in> set rest. \<not> prefix (e_path ?e) (e_path e')"
        using "1.prems"(2) by simp
      have "nonrecursive_loop nl ci tr prev (?e # ?under @ rest) (Shapes acc)
          = nonrecursive_loop nl ci tr prev rest (Shapes acc)"
        by (simp only: loop_skip [OF "1.prems"(1) b] skip_subtree [OF u r])
      with "1.prems"(1) blocked Cons show ?thesis
        by auto
    qed
  next
    case False
    from loop_own [OF False "1.prems"(1), of tr p T "shapes_on shp layer"
        "rci_conns layer p 0 T conns @ rest" acc]
    obtain prev1 where p1: "prev_ok nl ci prev1"
      and l1: "nonrecursive_loop nl ci tr prev (?own @ rci_conns layer p 0 T conns @ rest) (Shapes acc)
         = nonrecursive_loop nl ci tr prev1 (rci_conns layer p 0 T conns @ rest)
             (Shapes (acc @ map (\<lambda>s. (trans_mult tr T, s)) (shapes_on shp layer)))"
      by blast
    from "1.IH" [OF p1 "1.prems"(2), of "acc @ map (\<lambda>s. (trans_mult tr T, s)) (shapes_on shp layer)"]
      l1 False
    show ?thesis
      by auto
  qed
next
  case (2 layer p i T)
  then show ?case by auto
next
  case (3 layer p i T c cs)
  let ?later = "rci_conns layer p (Suc i) T cs @ rest"
  have "\<forall>e \<in> set ?later. \<not> prefix (p @ [i]) (e_path e)"
  proof
    fix e assume "e \<in> set ?later"
    then consider "e \<in> set (rci_conns layer p (Suc i) T cs)" | "e \<in> set rest"
      by auto
    then show "\<not> prefix (p @ [i]) (e_path e)"
    proof cases
      case 1
      then obtain j where "j \<ge> Suc i" "prefix (p @ [j]) (e_path e)"
        using entries_path(2) by blast
      then show ?thesis
        using sibling_paths [of p i "e_path e" j] by auto
    next
      case 2
      with "3.prems"(2) show ?thesis
        by (auto dest: append_prefixD)
    qed
  qed
  from "3.IH"(1) [OF "3.prems"(1) this, of acc]
  obtain prev1 where p1: "prev_ok nl ci prev1"
    and l1: "nonrecursive_loop nl ci tr prev
        (rci_entries layer (p @ [i]) (trans_mult T (fst c)) (snd c) @ ?later) (Shapes acc)
       = nonrecursive_loop nl ci tr prev1 ?later
           (Shapes (acc @ flat_node nl ci tr layer (trans_mult T (fst c)) (snd c)))"
    by blast
  from "3.IH"(2) [OF p1 "3.prems"(2),
      of "acc @ flat_node nl ci tr layer (trans_mult T (fst c)) (snd c)"] l1
  show ?case
    by auto
qed

lemma deliver_nonrecursive_flat:
  "deliver_shapes_of_net_nonrecursive nl node layer tr (Shapes acc)
     = (True, Shapes (acc @ flat_node nl (c_cell node) tr layer trans_unit node))"
proof -
  have "prev_ok nl (c_cell node) (c_cell node)"
    by (simp add: prev_ok_def)
  from loop_subtree(1) [OF this, of "[]" "[]" tr layer trans_unit node acc]
  obtain prev' where "nonrecursive_loop nl (c_cell node) tr (c_cell node)
       (rci_entries layer [] trans_unit node) (Shapes acc)
       = nonrecursive_loop nl (c_cell node) tr prev' [] (Shapes (acc @ flat_node nl (c_cell node) tr layer trans_unit node))"
    by auto
  then show ?thesis
    by (simp add: deliver_shapes_of_net_nonrecursive_def rci_begin_def)
qed













lemma skip_cell_shorter:
  "length (rci_skip_cell (e # es)) < length (e # es)"
proof -
  have "length (dropWhile (\<lambda>e'. prefix (e_path e) (e_path e')) es) \<le> length es"
    by (rule length_dropWhile_le)
  then show ?thesis
    by (simp add: rci_skip_cell_def)
qed

lemma loop_stop_on_first:
  "\<exists>ds. nonrecursive_loop nl ci tr prev it (Shapes acc) = (True, Shapes (acc @ ds))
         \<and> fst (nonrecursive_loop nl ci tr prev it StopOnFirst) = (ds = [])"
proof (induction "length it" arbitrary: it prev acc rule: less_induct)
  case less
  show ?case
  proof (cases it)
    case Nil
    then show ?thesis by simp
  next
    case (Cons e es)
    show ?thesis
    proof (cases "e_cell e \<noteq> prev \<and> e_cell e \<noteq> ci \<and> is_preserved nl (e_cell e)")
      case True
      have "nonrecursive_loop nl ci tr prev (e # es) to
          = nonrecursive_loop nl ci tr prev (rci_skip_cell (e # es)) to" for to
        using True by (subst nonrecursive_loop.simps) (simp add: Let_def)
      with less [of "rci_skip_cell (e # es)" prev acc] skip_cell_shorter [of e es] Cons
      show ?thesis
        by simp
    next
      case False
      let ?x = "(trans_mult tr (e_trans e), e_shape e)"
      have s: "nonrecursive_loop nl ci tr prev (e # es) (Shapes acc)
          = nonrecursive_loop nl ci tr (e_cell e) es (Shapes (acc @ [?x]))"
        using False by (subst nonrecursive_loop.simps) (auto simp: Let_def deliver_shape_def)
      have f: "nonrecursive_loop nl ci tr prev (e # es) StopOnFirst = (False, StopOnFirst)"
        using False by (subst nonrecursive_loop.simps) (auto simp: Let_def deliver_shape_def)
      from less [of es "e_cell e" "acc @ [?x]"] Cons
      obtain ds where "nonrecursive_loop nl ci tr (e_cell e) es (Shapes (acc @ [?x]))
          = (True, Shapes ((acc @ [?x]) @ ds))"
        by auto
      then have "nonrecursive_loop nl ci tr prev (e # es) (Shapes acc) = (True, Shapes (acc @ (?x # ds)))"
        unfolding s by simp
      with f Cons show ?thesis
        by (intro exI [of _ "?x # ds"]) simp
    qed
  qed
qed

lemma stop_on_first_flat:
  "fst (deliver_shapes_of_net_nonrecursive nl node layer tr StopOnFirst)
     = (flat_node nl (c_cell node) tr layer trans_unit node = [])"
proof -
  from loop_stop_on_first [of nl "c_cell node" tr "c_cell node" "rci_begin layer node" "[]"]
  obtain ds where ds: "nonrecursive_loop nl (c_cell node) tr (c_cell node) (rci_begin layer node) (Shapes [])
        = (True, Shapes ds)"
    "fst (nonrecursive_loop nl (c_cell node) tr (c_cell node) (rci_begin layer node) StopOnFirst) = (ds = [])"
    by auto
  from ds(1) deliver_nonrecursive_flat [of nl node layer tr "[]"]
  have "ds = flat_node nl (c_cell node) tr layer trans_unit node"
    by (simp add: deliver_shapes_of_net_nonrecursive_def)
  with ds(2) show ?thesis
    by (simp add: deliver_shapes_of_net_nonrecursive_def)
qed





lemma cluster_node_cell [simp]: "c_cell (cluster_node hc ci cid) = ci"
  by (simp add: cluster_node_def split: option.splits)


lemma ex_preserved:
  "\<not> is_preserved (Some ex_netlist) 5" "is_preserved (Some ex_netlist) 1"
  "\<not> is_preserved (Some ex_netlist) 7" "is_preserved (Some ex_netlist) 6"
  "\<not> is_preserved (Some ex_netlist) 9" "is_preserved (Some ex_netlist) 0"
  "is_preserved (Some ex_netlist) (Suc 0)"
  by (simp_all add: is_preserved_def ex_netlist_def circuit_by_cell_index_def
      device_abstract_by_cell_index_def ex_top_circuit_def ex_leaf_circuit_def)





section \<open>Rebuilding the hierarchy of a net\<close>


lemma extends_refl [simp]: "extends_layout tc ly ly"
  by (simp add: extends_layout_def)

lemma extends_trans:
  "extends_layout tc a b \<Longrightarrow> extends_layout tc b c \<Longrightarrow> extends_layout tc a c"
  by (auto simp: extends_layout_def)

lemma extends_new:
  "extends_layout tc a b \<Longrightarrow> extends_layout x b c \<Longrightarrow> length (ly_cells a) \<le> x \<Longrightarrow>
     extends_layout tc a c"
  by (auto simp: extends_layout_def)

lemma extends_add_cell: "extends_layout tc ly (snd (add_cell n ly))"
  by (simp add: extends_layout_def add_cell_def nth_append)

lemma nth_update_field:
  assumes "\<And>x. f (g x) = f x" and "i < length xs"
  shows "f (xs[k := g (xs ! k)] ! i) = f (xs ! i)"
  using assms by (cases "i = k") simp_all

lemma extends_insert_inst: "extends_layout tc ly (cell_insert_inst tc i ly)"
  by (simp add: extends_layout_def cell_insert_inst_def
      nth_update_field [where f = tc_name and g = "\<lambda>c. c\<lparr>tc_insts := tc_insts c @ [i]\<rparr>"])

lemma extends_insert_shapes: "extends_layout tc ly (cell_insert_shapes tc l xs ly)"
  by (simp add: extends_layout_def cell_insert_shapes_def
      nth_update_field [where f = tc_name and g = "\<lambda>c. c\<lparr>tc_shapes := tc_shapes c @ map (Pair l) xs\<rparr>"])

lemma extends_place_inst: "extends_layout tc ly (place_inst tc v two tm t ly)"
  by (simp add: place_inst_def extends_insert_inst)

lemma extends_deliver_layers:
  "deliver_layers nl node tr tc lm ly = Inr ly' \<Longrightarrow> extends_layout tc ly ly'"
proof (induction lm arbitrary: ly)
  case Nil
  then show ?case by simp
next
  case (Cons l lm)
  show ?case
  proof (cases "snd l")
    case None
    with Cons show ?thesis by simp
  next
    case (Some r)
    show ?thesis
    proof (cases "layer_of r")
      case (Inl e)
      with Cons.prems Some show ?thesis by simp
    next
      case (Inr lid)
      with Cons.prems Some Cons.IH
      have "extends_layout tc (cell_insert_shapes tc (fst l)
          (sink_shapes (snd (deliver_shapes_of_net_nonrecursive nl node lid tr (Shapes [])))) ly) ly'"
        by simp
      with extends_insert_shapes show ?thesis
        by (rule extends_trans)
    qed
  qed
qed

lemma net_cell_block_cases:
  assumes "net_cell_block nl lm ccp node tc n ncp tr ly = Inr (Some (x, y))"
  shows "(ncp = None \<and> x = tc \<and> y = ly)
     \<or> (\<exists>pre nt. ncp = Some pre \<and> n = Some nt \<and> x = length (ly_cells ly)
           \<and> y = cell_insert_inst tc (x, trans_unit) (snd (add_cell (pre @ net_expanded_name nt) ly)))"
  using assms
  by (auto simp: net_cell_block_def Let_def add_cell_def
      split: option.splits sum.splits if_splits bool.splits)

lemma extends_net_cell_block:
  assumes "net_cell_block nl lm ccp node tc n ncp tr ly = Inr (Some (x, y))"
  shows "extends_layout tc ly y"
proof -
  have "extends_layout tc ly (cell_insert_inst tc i (snd (add_cell nm ly)))" for i nm
    using extends_add_cell extends_insert_inst by (rule extends_trans)
  with net_cell_block_cases [OF assms] show ?thesis
    by auto
qed

lemma build_net_rec_unfold:
  "build_net_rec s lm ccp dcp node tc n ncp tr st =
     (case net_cell_block (netlist_get s) lm ccp node tc n ncp tr (fst st) of
        Inl e \<Rightarrow> Inl e
      | Inr None \<Rightarrow> Inr st
      | Inr (Some (target_cell, ly1)) \<Rightarrow>
          (case deliver_layers (netlist_get s) node tr target_cell lm ly1 of
             Inl e \<Rightarrow> Inl e
           | Inr ly2 \<Rightarrow>
               if ccp = None \<and> dcp = None then Inr (ly2, snd st)
               else
                 build_conns s lm ccp dcp
                   (trans_mult tr (trans_of_mag (1 / t_mag tr))) (trans_of_mag (t_mag tr))
                   target_cell (c_conns node) (ly2, snd st)))"
proof (cases node)
  case (CNode ci cid shp conns)
  show ?thesis
    unfolding CNode by (simp split: sum.splits option.splits prod.splits)
qed

lemma build_conns_unfold:
  "build_conns s lm ccp dcp two tm target_cell (c # cs) st =
     (case conn_branch_of s ccp dcp c (snd st) of
        Known v \<Rightarrow>
          build_conns s lm ccp dcp two tm target_cell cs
            (place_inst target_cell v two tm (fst c) (fst st), snd st)
      | NoNetlist \<Rightarrow> Inl NullPointer
      | NoCell \<Rightarrow>
          build_conns s lm ccp dcp two tm target_cell cs (fst st, snd st @ [(conn_key c, cell_index_max)])
      | NewCell name_prefix \<Rightarrow>
          (case build_net_rec s lm ccp dcp (snd c) (length (ly_cells (fst st))) None None tm
                  (snd (add_cell (name_prefix @ dss_cell_name (m_dss s) (c_cell (snd c))) (fst st)),
                   snd st @ [(conn_key c, length (ly_cells (fst st)))]) of
             Inl e \<Rightarrow> Inl e
           | Inr st2 \<Rightarrow>
               build_conns s lm ccp dcp two tm target_cell cs
                 (place_inst target_cell (length (ly_cells (fst st))) two tm (fst c) (fst st2), snd st2)))"
  by (simp add: conn_branch_of_def conn_key_def add_cell_def place_inst_def
      split: option.splits)

declare build_net_rec.simps [simp del] build_conns.simps(2) [simp del]

lemma conn_branch_Known:
  "conn_branch_of s ccp dcp c cm = Known v \<Longrightarrow> map_of cm (c_cell (snd c), c_id (snd c)) = Some v"
  by (auto simp: conn_branch_of_def conn_key_def split: option.splits)

lemma conn_branch_NoCell:
  "conn_branch_of s ccp dcp c cm = NoCell \<Longrightarrow>
     \<exists>nl. map_of cm (c_cell (snd c), c_id (snd c)) = None \<and> netlist_get s = Some nl \<and>
       (if device_abstract_by_cell_index nl (c_cell (snd c)) then dcp else ccp) = None"
  by (auto simp: conn_branch_of_def conn_key_def split: option.splits)

lemma conn_branch_NewCell:
  "conn_branch_of s ccp dcp c cm = NewCell pfx \<Longrightarrow>
     \<exists>nl. map_of cm (c_cell (snd c), c_id (snd c)) = None \<and> netlist_get s = Some nl \<and>
       (if device_abstract_by_cell_index nl (c_cell (snd c)) then dcp else ccp) = Some pfx"
  by (auto simp: conn_branch_of_def conn_key_def split: option.splits)

lemma build_induct [case_names node nil cons]:
  fixes P :: "l2n \<Rightarrow> lmap \<Rightarrow> string option \<Rightarrow> string option \<Rightarrow> ctree \<Rightarrow> nat \<Rightarrow> net option
     \<Rightarrow> string option \<Rightarrow> cplx_trans \<Rightarrow> layout \<times> cmap \<Rightarrow> bool"
    and Q :: "l2n \<Rightarrow> lmap \<Rightarrow> string option \<Rightarrow> string option \<Rightarrow> cplx_trans \<Rightarrow> cplx_trans \<Rightarrow> nat
     \<Rightarrow> (cplx_trans \<times> ctree) list \<Rightarrow> layout \<times> cmap \<Rightarrow> bool"
  assumes node: "\<And>s lm ccp dcp node tc n ncp tr st.
      (\<And>x y ly2.
          net_cell_block (netlist_get s) lm ccp node tc n ncp tr (fst st) = Inr (Some (x, y)) \<Longrightarrow>
          deliver_layers (netlist_get s) node tr x lm y = Inr ly2 \<Longrightarrow>
          \<not> (ccp = None \<and> dcp = None) \<Longrightarrow>
          Q s lm ccp dcp (trans_mult tr (trans_of_mag (1 / t_mag tr))) (trans_of_mag (t_mag tr))
            x (c_conns node) (ly2, snd st)) \<Longrightarrow>
      P s lm ccp dcp node tc n ncp tr st"
    and nil: "\<And>s lm ccp dcp two tm target_cell st. Q s lm ccp dcp two tm target_cell [] st"
    and cons: "\<And>s lm ccp dcp two tm target_cell c cs st.
      (\<And>v. conn_branch_of s ccp dcp c (snd st) = Known v \<Longrightarrow>
          Q s lm ccp dcp two tm target_cell cs
            (place_inst target_cell v two tm (fst c) (fst st), snd st)) \<Longrightarrow>
      (conn_branch_of s ccp dcp c (snd st) = NoCell \<Longrightarrow>
          Q s lm ccp dcp two tm target_cell cs
            (fst st, snd st @ [(conn_key c, cell_index_max)])) \<Longrightarrow>
      (\<And>pfx. conn_branch_of s ccp dcp c (snd st) = NewCell pfx \<Longrightarrow>
          P s lm ccp dcp (snd c) (length (ly_cells (fst st))) None None tm
            (snd (add_cell (pfx @ dss_cell_name (m_dss s) (c_cell (snd c))) (fst st)),
             snd st @ [(conn_key c, length (ly_cells (fst st)))])) \<Longrightarrow>
      (\<And>pfx st2. conn_branch_of s ccp dcp c (snd st) = NewCell pfx \<Longrightarrow>
          build_net_rec s lm ccp dcp (snd c) (length (ly_cells (fst st))) None None tm
            (snd (add_cell (pfx @ dss_cell_name (m_dss s) (c_cell (snd c))) (fst st)),
             snd st @ [(conn_key c, length (ly_cells (fst st)))]) = Inr st2 \<Longrightarrow>
          Q s lm ccp dcp two tm target_cell cs
            (place_inst target_cell (length (ly_cells (fst st))) two tm (fst c) (fst st2), snd st2)) \<Longrightarrow>
      Q s lm ccp dcp two tm target_cell (c # cs) st"
  shows "P s lm ccp dcp nd tc n ncp tr st" and "Q s' lm' ccp' dcp' two tm target_cell cs st'"
proof (induction s lm ccp dcp nd tc n ncp tr st and s' lm' ccp' dcp' two tm target_cell cs st'
    rule: build_net_rec_build_conns.induct)
  case (1 s lm ccp dcp ci cid shp conns tc n ncp tr st)
  show ?case
  proof (rule node)
    fix x y ly2
    assume "net_cell_block (netlist_get s) lm ccp (CNode ci cid shp conns) tc n ncp tr (fst st)
        = Inr (Some (x, y))"
      and "deliver_layers (netlist_get s) (CNode ci cid shp conns) tr x lm y = Inr ly2"
      and "\<not> (ccp = None \<and> dcp = None)"
    from "1.IH" [OF this(1) refl refl this(2,3)]
    show "Q s lm ccp dcp (trans_mult tr (trans_of_mag (1 / t_mag tr))) (trans_of_mag (t_mag tr))
            x (c_conns (CNode ci cid shp conns)) (ly2, snd st)"
      by simp
  qed
next
  case (2 s lm ccp dcp two tm target_cell st)
  show ?case by (rule nil)
next
  case (3 s lm ccp dcp two tm target_cell c cs st)
  show ?case
  proof (rule cons)
    fix v assume "conn_branch_of s ccp dcp c (snd st) = Known v"
    from "3.IH"(4) [OF conn_branch_Known [OF this]]
    show "Q s lm ccp dcp two tm target_cell cs (place_inst target_cell v two tm (fst c) (fst st), snd st)" .
  next
    assume "conn_branch_of s ccp dcp c (snd st) = NoCell"
    from conn_branch_NoCell [OF this] obtain nl where
      m: "map_of (snd st) (c_cell (snd c), c_id (snd c)) = None" "netlist_get s = Some nl"
        "(if device_abstract_by_cell_index nl (c_cell (snd c)) then dcp else ccp) = None"
      by blast
    from "3.IH"(1) [OF m]
    show "Q s lm ccp dcp two tm target_cell cs (fst st, snd st @ [(conn_key c, cell_index_max)])"
      by (simp add: place_inst_def conn_key_def)
  next
    fix pfx assume "conn_branch_of s ccp dcp c (snd st) = NewCell pfx"
    from conn_branch_NewCell [OF this] obtain nl where
      m: "map_of (snd st) (c_cell (snd c), c_id (snd c)) = None" "netlist_get s = Some nl"
        "(if device_abstract_by_cell_index nl (c_cell (snd c)) then dcp else ccp) = Some pfx"
      by blast
    have a: "(length (ly_cells (fst st)),
          snd (add_cell (pfx @ dss_cell_name (m_dss s) (c_cell (snd c))) (fst st)))
        = add_cell (pfx @ dss_cell_name (m_dss s) (c_cell (snd c))) (fst st)"
      by (simp add: add_cell_def)
    from "3.IH"(2) [OF m a]
    show "P s lm ccp dcp (snd c) (length (ly_cells (fst st))) None None tm
            (snd (add_cell (pfx @ dss_cell_name (m_dss s) (c_cell (snd c))) (fst st)),
             snd st @ [(conn_key c, length (ly_cells (fst st)))])"
      by (simp add: conn_key_def)
  next
    fix pfx st2 assume b: "conn_branch_of s ccp dcp c (snd st) = NewCell pfx"
      and r: "build_net_rec s lm ccp dcp (snd c) (length (ly_cells (fst st))) None None tm
            (snd (add_cell (pfx @ dss_cell_name (m_dss s) (c_cell (snd c))) (fst st)),
             snd st @ [(conn_key c, length (ly_cells (fst st)))]) = Inr st2"
    from conn_branch_NewCell [OF b] obtain nl where
      m: "map_of (snd st) (c_cell (snd c), c_id (snd c)) = None" "netlist_get s = Some nl"
        "(if device_abstract_by_cell_index nl (c_cell (snd c)) then dcp else ccp) = Some pfx"
      by blast
    have a: "(length (ly_cells (fst st)),
          snd (add_cell (pfx @ dss_cell_name (m_dss s) (c_cell (snd c))) (fst st)))
        = add_cell (pfx @ dss_cell_name (m_dss s) (c_cell (snd c))) (fst st)"
      by (simp add: add_cell_def)
    from "3.IH"(3) [OF m a r [unfolded conn_key_def]]
    show "Q s lm ccp dcp two tm target_cell cs
            (place_inst target_cell (length (ly_cells (fst st))) two tm (fst c) (fst st2), snd st2)" .
  qed
qed

lemma layer_of_deep: "r \<noteq> FlatRegion \<Longrightarrow> \<exists>lid. layer_of r = Inr lid"
  by (cases r) (simp_all add: layer_of_def)

lemma consider_cell_flat:
  "lmap_ok lm \<Longrightarrow> consider_cell nl node tr lm = Inr (net_has_shapes nl node tr lm)"
proof (induction lm)
  case Nil
  show ?case by (simp add: net_has_shapes_def)
next
  case (Cons l lm)
  from Cons.prems have ok: "lmap_ok lm"
    by (simp add: lmap_ok_def)
  note IH = Cons.IH [OF ok]
  show ?case
  proof (cases "snd l")
    case None
    with IH show ?thesis by (simp add: net_has_shapes_def)
  next
    case (Some r)
    with Cons.prems have "r \<noteq> FlatRegion"
      by (simp add: lmap_ok_def)
    from layer_of_deep [OF this] obtain lid where lid: "layer_of r = Inr lid" ..
    from IH Some lid show ?thesis
      by (simp add: net_has_shapes_def stop_on_first_flat)
  qed
qed

lemma deliver_layers_ok:
  "lmap_ok lm \<Longrightarrow> \<exists>ly'. deliver_layers nl node tr tc lm ly = Inr ly'"
proof (induction lm arbitrary: ly)
  case Nil
  show ?case by simp
next
  case (Cons l lm)
  from Cons.prems have ok: "lmap_ok lm"
    by (simp add: lmap_ok_def)
  note IH = Cons.IH [OF ok]
  show ?case
  proof (cases "snd l")
    case None
    with IH show ?thesis by simp
  next
    case (Some r)
    with Cons.prems have "r \<noteq> FlatRegion"
      by (simp add: lmap_ok_def)
    from layer_of_deep [OF this] obtain lid where lid: "layer_of r = Inr lid" ..
    from IH Some lid show ?thesis
      by simp
  qed
qed

lemma net_cell_block_eq:
  assumes "lmap_ok lm"
  shows "net_cell_block nl lm ccp node tc (Some nt) (Some pre) tr ly =
     (if net_has_shapes nl node tr lm \<or> (ccp \<noteq> None \<and> c_conns node \<noteq> []) then
        Inr (Some (length (ly_cells ly),
          cell_insert_inst tc (length (ly_cells ly), trans_unit)
            (snd (add_cell (pre @ net_expanded_name nt) ly))))
      else Inr None)"
  by (auto simp: net_cell_block_def Let_def add_cell_def consider_cell_flat [OF assms])

lemma net_cell_block_ok:
  assumes "lmap_ok lm" and "ncp \<noteq> None \<longrightarrow> n \<noteq> None"
  shows "\<exists>r. net_cell_block nl lm ccp node tc n ncp tr ly = Inr r"
proof (cases ncp)
  case None
  then show ?thesis by (simp add: net_cell_block_def)
next
  case (Some pre)
  with assms(2) obtain nt where "n = Some nt" by auto
  with Some net_cell_block_eq [OF assms(1)] show ?thesis
    by simp
qed

lemma conn_branch_NoNetlist:
  "conn_branch_of s ccp dcp c cm = NoNetlist \<Longrightarrow> netlist_get s = None"
  by (auto simp: conn_branch_of_def split: option.splits)

lemma build_ok:
  shows "lmap_ok lm \<Longrightarrow> netlist_get s \<noteq> None \<Longrightarrow> (ncp \<noteq> None \<longrightarrow> n \<noteq> None) \<Longrightarrow>
      \<exists>st'. build_net_rec s lm ccp dcp nd tc n ncp tr st = Inr st'"
    and "lmap_ok lm \<Longrightarrow> netlist_get s \<noteq> None \<Longrightarrow>
      \<exists>st'. build_conns s lm ccp dcp two tm target_cell cs st = Inr st'"
proof (induction s lm ccp dcp nd tc n ncp tr st and s lm ccp dcp two tm target_cell cs st
    rule: build_induct)
  case (node s lm ccp dcp node tc n ncp tr st)
  from net_cell_block_ok [OF node.prems(1,3)] obtain r where
    r: "net_cell_block (netlist_get s) lm ccp node tc n ncp tr (fst st) = Inr r" ..
  show ?case
  proof (cases r)
    case None
    with r show ?thesis by (simp add: build_net_rec_unfold)
  next
    case (Some xy)
    obtain x y where xy: "xy = (x, y)" by (cases xy)
    from deliver_layers_ok [OF node.prems(1)] obtain ly2 where
      dl: "deliver_layers (netlist_get s) node tr x lm y = Inr ly2" ..
    show ?thesis
    proof (cases "ccp = None \<and> dcp = None")
      case True
      with r Some xy dl show ?thesis by (simp add: build_net_rec_unfold)
    next
      case False
      from node.IH [OF r [unfolded Some xy] dl False node.prems(1,2)]
      show ?thesis using r Some xy dl False by (simp add: build_net_rec_unfold)
    qed
  qed
next
  case (nil s lm ccp dcp two tm target_cell st)
  show ?case by simp
next
  case (cons s lm ccp dcp two tm target_cell c cs st)
  show ?case
  proof (cases "conn_branch_of s ccp dcp c (snd st)")
    case (Known v)
    from cons.IH(1) [OF Known cons.prems] show ?thesis
      by (simp add: build_conns_unfold Known)
  next
    case (NewCell pfx)
    from cons.IH(3) [OF NewCell cons.prems(1,2)] obtain st2 where
      st2: "build_net_rec s lm ccp dcp (snd c) (length (ly_cells (fst st))) None None tm
            (snd (add_cell (pfx @ dss_cell_name (m_dss s) (c_cell (snd c))) (fst st)),
             snd st @ [(conn_key c, length (ly_cells (fst st)))]) = Inr st2"
      by auto
    from cons.IH(4) [OF NewCell st2 cons.prems] show ?thesis
      by (simp add: build_conns_unfold NewCell st2)
  next
    case NoCell
    from cons.IH(2) [OF NoCell cons.prems] show ?thesis
      by (simp add: build_conns_unfold NoCell)
  next
    case NoNetlist
    from conn_branch_NoNetlist [OF this] cons.prems(2) show ?thesis
      by simp
  qed
qed

lemma build_extends:
  shows "build_net_rec s lm ccp dcp nd tc n ncp tr st = Inr st1 \<Longrightarrow> extends_layout tc (fst st) (fst st1)"
    and "build_conns s lm ccp dcp two tm target_cell cs st = Inr st1 \<Longrightarrow>
      extends_layout target_cell (fst st) (fst st1)"
proof (induction s lm ccp dcp nd tc n ncp tr st and s lm ccp dcp two tm target_cell cs st
    arbitrary: st1 and st1 rule: build_induct)
  case (node s lm ccp dcp node tc n ncp tr st)
  show ?case
  proof (cases "net_cell_block (netlist_get s) lm ccp node tc n ncp tr (fst st)")
    case (Inl e)
    with node.prems show ?thesis by (simp add: build_net_rec_unfold)
  next
    case (Inr r)
    show ?thesis
    proof (cases r)
      case None
      with Inr node.prems show ?thesis by (simp add: build_net_rec_unfold)
    next
      case (Some xy)
      obtain x y where xy: "xy = (x, y)" by (cases xy)
      note ncb = Inr [unfolded Some xy]
      from net_cell_block_cases [OF ncb] have x: "x = tc \<or> length (ly_cells (fst st)) \<le> x"
        by auto
      note e1 = extends_net_cell_block [OF ncb]
      show ?thesis
      proof (cases "deliver_layers (netlist_get s) node tr x lm y")
        case (Inl e)
        with ncb node.prems show ?thesis by (simp add: build_net_rec_unfold)
      next
        case dl: (Inr ly2)
        note e2 = extends_deliver_layers [OF dl]
        have e3: "extends_layout x ly2 (fst st1)"
        proof (cases "ccp = None \<and> dcp = None")
          case True
          with ncb dl node.prems show ?thesis by (auto simp: build_net_rec_unfold)
        next
          case False
          with ncb dl node.prems have "build_conns s lm ccp dcp
              (trans_mult tr (trans_of_mag (1 / t_mag tr))) (trans_of_mag (t_mag tr))
              x (c_conns node) (ly2, snd st) = Inr st1"
            by (simp add: build_net_rec_unfold)
          from node.IH [OF ncb dl False this] show ?thesis by simp
        qed
        from e2 e3 have e4: "extends_layout x y (fst st1)" by (rule extends_trans)
        from x show ?thesis
        proof
          assume "x = tc"
          with e1 e4 show ?thesis by (auto intro: extends_trans)
        next
          assume "length (ly_cells (fst st)) \<le> x"
          with e1 e4 show ?thesis by (rule extends_new)
        qed
      qed
    qed
  qed
next
  case (nil s lm ccp dcp two tm target_cell st)
  then show ?case by simp
next
  case (cons s lm ccp dcp two tm target_cell c cs st)
  show ?case
  proof (cases "conn_branch_of s ccp dcp c (snd st)")
    case (Known v)
    with cons.prems have "build_conns s lm ccp dcp two tm target_cell cs
        (place_inst target_cell v two tm (fst c) (fst st), snd st) = Inr st1"
      by (simp add: build_conns_unfold)
    from cons.IH(1) [OF Known this] have
      "extends_layout target_cell (place_inst target_cell v two tm (fst c) (fst st)) (fst st1)"
      by simp
    with extends_place_inst show ?thesis by (rule extends_trans)
  next
    case (NewCell pfx)
    let ?L = "length (ly_cells (fst st))"
    let ?st0 = "(snd (add_cell (pfx @ dss_cell_name (m_dss s) (c_cell (snd c))) (fst st)),
             snd st @ [(conn_key c, ?L)])"
    from cons.prems NewCell obtain st2 where
      st2: "build_net_rec s lm ccp dcp (snd c) ?L None None tm ?st0 = Inr st2"
      and rest: "build_conns s lm ccp dcp two tm target_cell cs
        (place_inst target_cell ?L two tm (fst c) (fst st2), snd st2) = Inr st1"
      by (auto simp: build_conns_unfold split: sum.splits)
    from cons.IH(3) [OF NewCell st2] have "extends_layout ?L (fst ?st0) (fst st2)" .
    then have a: "extends_layout ?L (snd (add_cell (pfx @ dss_cell_name (m_dss s) (c_cell (snd c))) (fst st))) (fst st2)"
      by simp
    have b: "extends_layout target_cell (fst st) (fst st2)"
      using extends_add_cell a by (rule extends_new) simp
    from cons.IH(4) [OF NewCell st2 rest] have
      "extends_layout target_cell (place_inst target_cell ?L two tm (fst c) (fst st2)) (fst st1)"
      by simp
    with extends_place_inst have "extends_layout target_cell (fst st2) (fst st1)"
      by (rule extends_trans)
    with b show ?thesis by (rule extends_trans)
  next
    case NoCell
    with cons.prems have "build_conns s lm ccp dcp two tm target_cell cs
        (fst st, snd st @ [(conn_key c, cell_index_max)]) = Inr st1"
      by (simp add: build_conns_unfold)
    from cons.IH(2) [OF NoCell this] show ?thesis by simp
  next
    case NoNetlist
    with cons.prems show ?thesis by (simp add: build_conns_unfold)
  qed
qed

lemma extends_same_target:
  assumes "extends_layout x a b" and "i < length (ly_cells a)" and "i \<noteq> x"
  shows "ly_cells b ! i = ly_cells a ! i"
  using assms by (simp add: extends_layout_def)

lemma extends_name:
  assumes "extends_layout x a b" and "i < length (ly_cells a)"
  shows "tc_name (ly_cells b ! i) = tc_name (ly_cells a ! i)"
  using assms by (simp add: extends_layout_def)

lemma extends_length:
  assumes "extends_layout x a b"
  shows "length (ly_cells a) \<le> length (ly_cells b)"
  using assms by (simp add: extends_layout_def)

lemma net_cell_created:
  assumes ok: "lmap_ok lm" and nl: "netlist_get s \<noteq> None" and tc: "tc < length (ly_cells (fst st))"
    and some: "net_has_shapes (netlist_get s) node tr lm \<or> (ccp \<noteq> None \<and> c_conns node \<noteq> [])"
  shows "\<exists>st'. build_net_rec s lm ccp dcp node tc (Some nt) (Some pre) tr st = Inr st'
      \<and> length (ly_cells (fst st)) < length (ly_cells (fst st'))
      \<and> tc_name (ly_cells (fst st') ! length (ly_cells (fst st))) = pre @ net_expanded_name nt
      \<and> ly_cells (fst st') ! tc
           = (ly_cells (fst st) ! tc)\<lparr>tc_insts := tc_insts (ly_cells (fst st) ! tc)
                @ [(length (ly_cells (fst st)), trans_unit)]\<rparr>"
proof -
  let ?L = "length (ly_cells (fst st))"
  let ?y = "cell_insert_inst tc (?L, trans_unit) (snd (add_cell (pre @ net_expanded_name nt) (fst st)))"
  from build_ok(1) [OF ok nl, of "Some pre" "Some nt" ccp dcp node tc tr st] obtain st' where
    st': "build_net_rec s lm ccp dcp node tc (Some nt) (Some pre) tr st = Inr st'"
    by auto
  from some have ncb: "net_cell_block (netlist_get s) lm ccp node tc (Some nt) (Some pre) tr (fst st)
      = Inr (Some (?L, ?y))"
    by (simp add: net_cell_block_eq [OF ok])
  from deliver_layers_ok [OF ok] obtain ly2 where
    dl: "deliver_layers (netlist_get s) node tr ?L lm ?y = Inr ly2" ..
  have e3: "extends_layout ?L ly2 (fst st')"
  proof (cases "ccp = None \<and> dcp = None")
    case True
    with ncb dl st' show ?thesis by (auto simp: build_net_rec_unfold)
  next
    case False
    with ncb dl st' have "build_conns s lm ccp dcp
        (trans_mult tr (trans_of_mag (1 / t_mag tr))) (trans_of_mag (t_mag tr))
        ?L (c_conns node) (ly2, snd st) = Inr st'"
      by (simp add: build_net_rec_unfold)
    from build_extends(2) [OF this] show ?thesis by simp
  qed
  from extends_deliver_layers [OF dl] e3 have e: "extends_layout ?L ?y (fst st')"
    by (rule extends_trans)
  have len: "length (ly_cells ?y) = Suc ?L"
    by (simp add: cell_insert_inst_def add_cell_def)
  have nm: "tc_name (ly_cells ?y ! ?L) = pre @ net_expanded_name nt"
    using tc by (simp add: cell_insert_inst_def add_cell_def nth_append)
  have ytc: "ly_cells ?y ! tc = (ly_cells (fst st) ! tc)\<lparr>tc_insts := tc_insts (ly_cells (fst st) ! tc)
                @ [(?L, trans_unit)]\<rparr>"
    using tc by (simp add: cell_insert_inst_def add_cell_def nth_append)
  from extends_length [OF e] len have "?L < length (ly_cells (fst st'))"
    by simp
  moreover from extends_name [OF e, of ?L] len nm
  have "tc_name (ly_cells (fst st') ! ?L) = pre @ net_expanded_name nt"
    by simp
  moreover from extends_same_target [OF e, of tc] len tc ytc
  have "ly_cells (fst st') ! tc = (ly_cells (fst st) ! tc)\<lparr>tc_insts := tc_insts (ly_cells (fst st) ! tc)
                @ [(?L, trans_unit)]\<rparr>"
    by simp
  ultimately show ?thesis using st' by blast
qed

text \<open>
  Claim C2. In \<open>build_net_rec\<close> with a net cell name prefix, a net and a layer map of
  deep regions: when the net has no shape on any mapped layer and either no circuit cell
  name prefix is given or the net's cluster has no connection, the call changes neither
  the layout nor the cell map. Otherwise, that is with a shape on a mapped layer, or with
  a circuit cell name prefix and a connection, the call succeeds, the next cell
  of the layout is new and named by the prefix and the expanded name of the net, and the
  target cell is as before but for one more instance, of the new cell and with the unit
  transformation.
\<close>

theorem net_cell_elision:
  assumes "lmap_ok lm" and "netlist_get s \<noteq> None" and "tc < length (ly_cells (fst st))"
  shows "(\<not> net_has_shapes (netlist_get s) node tr lm \<and> (ccp = None \<or> c_conns node = []) \<longrightarrow>
            build_net_rec s lm ccp dcp node tc (Some nt) (Some pre) tr st = Inr st)
      \<and> (net_has_shapes (netlist_get s) node tr lm \<or> (ccp \<noteq> None \<and> c_conns node \<noteq> []) \<longrightarrow>
           (\<exists>st'. build_net_rec s lm ccp dcp node tc (Some nt) (Some pre) tr st = Inr st'
              \<and> length (ly_cells (fst st)) < length (ly_cells (fst st'))
              \<and> tc_name (ly_cells (fst st') ! length (ly_cells (fst st))) = pre @ net_expanded_name nt
              \<and> ly_cells (fst st') ! tc
                   = (ly_cells (fst st) ! tc)\<lparr>tc_insts := tc_insts (ly_cells (fst st) ! tc)
                        @ [(length (ly_cells (fst st)), trans_unit)]\<rparr>))"
proof (intro conjI impI)
  assume "\<not> net_has_shapes (netlist_get s) node tr lm \<and> (ccp = None \<or> c_conns node = [])"
  then have "net_cell_block (netlist_get s) lm ccp node tc (Some nt) (Some pre) tr (fst st) = Inr None"
    by (auto simp: net_cell_block_eq [OF assms(1)])
  then show "build_net_rec s lm ccp dcp node tc (Some nt) (Some pre) tr st = Inr st"
    by (simp add: build_net_rec_unfold)
next
  assume "net_has_shapes (netlist_get s) node tr lm \<or> (ccp \<noteq> None \<and> c_conns node \<noteq> [])"
  from net_cell_created [OF assms this]
  show "\<exists>st'. build_net_rec s lm ccp dcp node tc (Some nt) (Some pre) tr st = Inr st'
              \<and> length (ly_cells (fst st)) < length (ly_cells (fst st'))
              \<and> tc_name (ly_cells (fst st') ! length (ly_cells (fst st))) = pre @ net_expanded_name nt
              \<and> ly_cells (fst st') ! tc
                   = (ly_cells (fst st) ! tc)\<lparr>tc_insts := tc_insts (ly_cells (fst st) ! tc)
                        @ [(length (ly_cells (fst st)), trans_unit)]\<rparr>" .
qed

lemma ex_lmap_ok: "lmap_ok ex_lmap"
  by (simp add: lmap_ok_def ex_lmap_def)

lemma ex_has_shapes:
  "\<not> net_has_shapes (Some ex_netlist) ex_empty_node tr ex_lmap"
  "\<not> net_has_shapes (Some ex_netlist) ex_conn_node tr ex_lmap"
  "net_has_shapes (Some ex_netlist) ex_tree tr ex_lmap"
  by (simp_all add: net_has_shapes_def ex_lmap_def layer_of_def ex_empty_node_def ex_conn_node_def
      ex_tree_def shapes_on_def ex_preserved)

lemma ex_layout_cells: "length (ly_cells ex_layout) = 1" "tc_insts (ly_cells ex_layout ! 0) = []"
  by (simp_all add: ex_layout_def)

theorem net_cell_elision_witness:
  "build_net_rec ex_probe_state ex_lmap (Some ''C_'') None ex_empty_node 0 (Some ex_top_net)
       (Some ''N_'') trans_unit (ex_layout, []) = Inr (ex_layout, [])
   \<and> (\<exists>st'. build_net_rec ex_probe_state ex_lmap (Some ''C_'') None ex_tree 0 (Some ex_top_net)
          (Some ''N_'') trans_unit (ex_layout, []) = Inr st'
        \<and> 1 < length (ly_cells (fst st'))
        \<and> tc_name (ly_cells (fst st') ! 1) = ''N_VDD''
        \<and> tc_insts (ly_cells (fst st') ! 0) = [(1, trans_unit)])"
proof -
  have e: "c_conns ex_empty_node = []"
    by (simp add: ex_empty_node_def)
  have n: "net_expanded_name ex_top_net = ''VDD''"
    by (simp add: ex_top_net_def)
  from net_cell_elision [where lm = ex_lmap and s = ex_probe_state and tc = 0 and st = "(ex_layout, [])"
      and node = ex_empty_node and tr = trans_unit and ccp = "Some ''C_''" and dcp = None
      and nt = ex_top_net and pre = "''N_''"]
  have a: "build_net_rec ex_probe_state ex_lmap (Some ''C_'') None ex_empty_node 0 (Some ex_top_net)
       (Some ''N_'') trans_unit (ex_layout, []) = Inr (ex_layout, [])"
    by (simp add: ex_lmap_ok ex_probe_state_fields ex_has_shapes ex_layout_cells e)
  from net_cell_elision [where lm = ex_lmap and s = ex_probe_state and tc = 0 and st = "(ex_layout, [])"
      and node = ex_tree and tr = trans_unit and ccp = "Some ''C_''" and dcp = None
      and nt = ex_top_net and pre = "''N_''"]
  have b: "\<exists>st'. build_net_rec ex_probe_state ex_lmap (Some ''C_'') None ex_tree 0 (Some ex_top_net)
          (Some ''N_'') trans_unit (ex_layout, []) = Inr st'
        \<and> 1 < length (ly_cells (fst st'))
        \<and> tc_name (ly_cells (fst st') ! 1) = ''N_VDD''
        \<and> tc_insts (ly_cells (fst st') ! 0) = [(1, trans_unit)]"
    by (auto simp: ex_lmap_ok ex_probe_state_fields ex_has_shapes ex_layout_cells n)
  from a b show ?thesis ..
qed

theorem connection_without_cell_counterexample:
  "c_conns ex_conn_node \<noteq> []
   \<and> build_net_rec ex_probe_state ex_lmap None None ex_conn_node 0 (Some ex_top_net)
       (Some ''N_'') trans_unit (ex_layout, []) = Inr (ex_layout, [])"
  by (simp add: build_net_rec_unfold net_cell_block_eq [OF ex_lmap_ok] ex_probe_state_fields
      ex_has_shapes) (simp add: ex_conn_node_def)

section \<open>Rebuilding: the cells of the children\<close>


lemma length_insert_inst [simp]: "length (ly_cells (cell_insert_inst tc i ly)) = length (ly_cells ly)"
  by (simp add: cell_insert_inst_def)

lemma length_insert_shapes [simp]:
  "length (ly_cells (cell_insert_shapes tc l xs ly)) = length (ly_cells ly)"
  by (simp add: cell_insert_shapes_def)

lemma length_place_inst [simp]:
  "length (ly_cells (place_inst tc v two tm t ly)) = length (ly_cells ly)"
  by (simp add: place_inst_def)

lemma length_add_cell [simp]: "length (ly_cells (snd (add_cell n ly))) = Suc (length (ly_cells ly))"
  by (simp add: add_cell_def)

lemma insts_insert_shapes [simp]:
  "i < length (ly_cells ly) \<Longrightarrow>
     tc_insts (ly_cells (cell_insert_shapes tc l xs ly) ! i) = tc_insts (ly_cells ly ! i)"
  by (simp add: cell_insert_shapes_def
      nth_update_field [where f = tc_insts and g = "\<lambda>c. c\<lparr>tc_shapes := tc_shapes c @ map (Pair l) xs\<rparr>"])

lemma deliver_layers_insts:
  "deliver_layers nl node tr tc lm ly = Inr ly' \<Longrightarrow>
     length (ly_cells ly') = length (ly_cells ly)
     \<and> (\<forall>i < length (ly_cells ly). tc_insts (ly_cells ly' ! i) = tc_insts (ly_cells ly ! i))"
proof (induction lm arbitrary: ly)
  case Nil
  then show ?case by simp
next
  case (Cons l lm)
  show ?case
  proof (cases "snd l")
    case None
    with Cons show ?thesis by simp
  next
    case (Some r)
    show ?thesis
    proof (cases "layer_of r")
      case (Inl e)
      with Cons.prems Some show ?thesis by simp
    next
      case (Inr lid)
      with Cons.prems Some Cons.IH [of "cell_insert_shapes tc (fst l)
          (sink_shapes (snd (deliver_shapes_of_net_nonrecursive nl node lid tr (Shapes [])))) ly"]
      show ?thesis by simp
    qed
  qed
qed

lemma insts_place_inst:
  "tc < length (ly_cells ly) \<Longrightarrow>
     tc_insts (ly_cells (place_inst tc v two tm t ly) ! tc)
       = tc_insts (ly_cells ly ! tc)
           @ (if v \<noteq> cell_index_max then [(v, transform_into tm (trans_mult two t))] else [])"
  by (simp add: place_inst_def cell_insert_inst_def)

text \<open>The cell map grows at its end.\<close>

lemma build_memo_grows:
  shows "build_net_rec s lm ccp dcp nd tc n ncp tr st = Inr st1 \<Longrightarrow> \<exists>new. snd st1 = snd st @ new"
    and "build_conns s lm ccp dcp two tm target_cell cs st = Inr st1 \<Longrightarrow> \<exists>new. snd st1 = snd st @ new"
proof (induction s lm ccp dcp nd tc n ncp tr st and s lm ccp dcp two tm target_cell cs st
    arbitrary: st1 and st1 rule: build_induct)
  case (node s lm ccp dcp node tc n ncp tr st)
  show ?case
  proof (cases "net_cell_block (netlist_get s) lm ccp node tc n ncp tr (fst st)")
    case (Inl e)
    with node.prems show ?thesis by (simp add: build_net_rec_unfold)
  next
    case (Inr r)
    show ?thesis
    proof (cases r)
      case None
      with Inr node.prems show ?thesis by (simp add: build_net_rec_unfold)
    next
      case (Some xy)
      obtain x y where xy: "xy = (x, y)" by (cases xy)
      note ncb = Inr [unfolded Some xy]
      show ?thesis
      proof (cases "deliver_layers (netlist_get s) node tr x lm y")
        case (Inl e)
        with ncb node.prems show ?thesis by (simp add: build_net_rec_unfold)
      next
        case dl: (Inr ly2)
        show ?thesis
        proof (cases "ccp = None \<and> dcp = None")
          case True
          with ncb dl node.prems show ?thesis by (auto simp: build_net_rec_unfold)
        next
          case False
          with ncb dl node.prems have "build_conns s lm ccp dcp
              (trans_mult tr (trans_of_mag (1 / t_mag tr))) (trans_of_mag (t_mag tr))
              x (c_conns node) (ly2, snd st) = Inr st1"
            by (simp add: build_net_rec_unfold)
          from node.IH [OF ncb dl False this] show ?thesis by simp
        qed
      qed
    qed
  qed
next
  case (nil s lm ccp dcp two tm target_cell st)
  then show ?case by simp
next
  case (cons s lm ccp dcp two tm target_cell c cs st)
  show ?case
  proof (cases "conn_branch_of s ccp dcp c (snd st)")
    case (Known v)
    with cons.prems have "build_conns s lm ccp dcp two tm target_cell cs
        (place_inst target_cell v two tm (fst c) (fst st), snd st) = Inr st1"
      by (simp add: build_conns_unfold)
    from cons.IH(1) [OF Known this] show ?thesis by simp
  next
    case (NewCell pfx)
    let ?L = "length (ly_cells (fst st))"
    let ?st0 = "(snd (add_cell (pfx @ dss_cell_name (m_dss s) (c_cell (snd c))) (fst st)),
             snd st @ [(conn_key c, ?L)])"
    from cons.prems NewCell obtain st2 where
      st2: "build_net_rec s lm ccp dcp (snd c) ?L None None tm ?st0 = Inr st2"
      and rest: "build_conns s lm ccp dcp two tm target_cell cs
        (place_inst target_cell ?L two tm (fst c) (fst st2), snd st2) = Inr st1"
      by (auto simp: build_conns_unfold split: sum.splits)
    from cons.IH(3) [OF NewCell st2] cons.IH(4) [OF NewCell st2 rest] show ?thesis
      by auto
  next
    case NoCell
    with cons.prems have "build_conns s lm ccp dcp two tm target_cell cs
        (fst st, snd st @ [(conn_key c, cell_index_max)]) = Inr st1"
      by (simp add: build_conns_unfold)
    from cons.IH(2) [OF NoCell this] show ?thesis by auto
  next
    case NoNetlist
    with cons.prems show ?thesis by (simp add: build_conns_unfold)
  qed
qed

lemma memo_lookup_kept:
  assumes "cm1 = cm @ new" and "map_of cm k = Some v"
  shows "map_of cm1 k = Some v"
  using assms by (simp add: map_add_Some_iff)

lemma build_net_rec_cases [consumes 1, case_names shortcut flat rec]:
  assumes "build_net_rec s lm ccp dcp node tc n ncp tr st = Inr st1"
  obtains "net_cell_block (netlist_get s) lm ccp node tc n ncp tr (fst st) = Inr None" and "st1 = st"
  | x y ly2 where "net_cell_block (netlist_get s) lm ccp node tc n ncp tr (fst st) = Inr (Some (x, y))"
      and "deliver_layers (netlist_get s) node tr x lm y = Inr ly2"
      and "ccp = None \<and> dcp = None" and "st1 = (ly2, snd st)"
  | x y ly2 where "net_cell_block (netlist_get s) lm ccp node tc n ncp tr (fst st) = Inr (Some (x, y))"
      and "deliver_layers (netlist_get s) node tr x lm y = Inr ly2"
      and "\<not> (ccp = None \<and> dcp = None)"
      and "build_conns s lm ccp dcp (trans_mult tr (trans_of_mag (1 / t_mag tr)))
             (trans_of_mag (t_mag tr)) x (c_conns node) (ly2, snd st) = Inr st1"
proof (cases "net_cell_block (netlist_get s) lm ccp node tc n ncp tr (fst st)")
  case (Inl e)
  with assms show ?thesis by (simp add: build_net_rec_unfold)
next
  case (Inr r)
  show ?thesis
  proof (cases r)
    case None
    with Inr assms have "st1 = st" by (simp add: build_net_rec_unfold)
    with Inr None that(1) show ?thesis by simp
  next
    case (Some xy)
    obtain x y where xy: "xy = (x, y)" by (cases xy)
    note ncb = Inr [unfolded Some xy]
    show ?thesis
    proof (cases "deliver_layers (netlist_get s) node tr x lm y")
      case (Inl e)
      with ncb assms show ?thesis by (simp add: build_net_rec_unfold)
    next
      case dl: (Inr ly2)
      show ?thesis
      proof (cases "ccp = None \<and> dcp = None")
        case True
        with ncb dl assms have "st1 = (ly2, snd st)" by (auto simp: build_net_rec_unfold)
        with ncb dl True that(2) show ?thesis by blast
      next
        case False
        with ncb dl assms have "build_conns s lm ccp dcp (trans_mult tr (trans_of_mag (1 / t_mag tr)))
             (trans_of_mag (t_mag tr)) x (c_conns node) (ly2, snd st) = Inr st1"
          by (simp add: build_net_rec_unfold)
        with ncb dl False that(3) show ?thesis by blast
      qed
    qed
  qed
qed

lemma build_conns_cases [consumes 1, case_names known nocell newcell]:
  assumes "build_conns s lm ccp dcp two tm target_cell (c # cs) st = Inr st1"
  obtains v where "conn_branch_of s ccp dcp c (snd st) = Known v"
      and "build_conns s lm ccp dcp two tm target_cell cs
             (place_inst target_cell v two tm (fst c) (fst st), snd st) = Inr st1"
  | "conn_branch_of s ccp dcp c (snd st) = NoCell"
      and "build_conns s lm ccp dcp two tm target_cell cs
             (fst st, snd st @ [(conn_key c, cell_index_max)]) = Inr st1"
  | pfx st2 where "conn_branch_of s ccp dcp c (snd st) = NewCell pfx"
      and "build_net_rec s lm ccp dcp (snd c) (length (ly_cells (fst st))) None None tm
             (snd (add_cell (pfx @ dss_cell_name (m_dss s) (c_cell (snd c))) (fst st)),
              snd st @ [(conn_key c, length (ly_cells (fst st)))]) = Inr st2"
      and "build_conns s lm ccp dcp two tm target_cell cs
             (place_inst target_cell (length (ly_cells (fst st))) two tm (fst c) (fst st2), snd st2)
           = Inr st1"
  using assms
  by (cases "conn_branch_of s ccp dcp c (snd st)")
    (auto simp: build_conns_unfold split: sum.splits)

lemma map_of_snoc_new:
  "map_of cm k = None \<Longrightarrow> map_of (cm @ [(k, v)]) k = Some v"
  by (simp add: map_add_Some_iff)

lemma conn_branch_key:
  "conn_branch_of s ccp dcp c cm = Known v \<Longrightarrow> map_of cm (conn_key c) = Some v"
  "conn_branch_of s ccp dcp c cm = NoCell \<Longrightarrow> map_of cm (conn_key c) = None"
  "conn_branch_of s ccp dcp c cm = NewCell pfx \<Longrightarrow> map_of cm (conn_key c) = None"
  by (auto simp: conn_branch_of_def split: option.splits)

lemma child_insts_Cons:
  "child_insts cm two tm (c # cs) =
     (if map_of cm (conn_key c) \<noteq> Some cell_index_max
      then [(the (map_of cm (conn_key c)), transform_into tm (trans_mult two (fst c)))] else [])
     @ child_insts cm two tm cs"
  by (simp add: child_insts_def)

lemma build_conns_insts:
  "build_conns s lm ccp dcp two tm target_cell cs st = Inr st1 \<Longrightarrow>
   target_cell < length (ly_cells (fst st)) \<Longrightarrow>
     tc_insts (ly_cells (fst st1) ! target_cell)
       = tc_insts (ly_cells (fst st) ! target_cell) @ child_insts (snd st1) two tm cs"
proof (induction cs arbitrary: st)
  case Nil
  then show ?case by (simp add: child_insts_def)
next
  case (Cons c cs)
  from Cons.prems(1) show ?case
  proof (cases rule: build_conns_cases)
    case (known v)
    from build_memo_grows(2) [OF known(2)] obtain new where "snd st1 = snd st @ new"
      by auto
    from memo_lookup_kept [OF this conn_branch_key(1) [OF known(1)]]
    have k: "map_of (snd st1) (conn_key c) = Some v" .
    from Cons.IH [OF known(2)] Cons.prems(2) show ?thesis
      by (simp add: insts_place_inst child_insts_Cons k)
  next
    case nocell
    from build_memo_grows(2) [OF nocell(2)] obtain new where
      "snd st1 = (snd st @ [(conn_key c, cell_index_max)]) @ new"
      by auto
    from memo_lookup_kept [OF this map_of_snoc_new [OF conn_branch_key(2) [OF nocell(1)]]]
    have k: "map_of (snd st1) (conn_key c) = Some cell_index_max" .
    from Cons.IH [OF nocell(2)] Cons.prems(2) show ?thesis
      by (simp add: child_insts_Cons k)
  next
    case (newcell pfx st2)
    let ?L = "length (ly_cells (fst st))"
    let ?ly0 = "snd (add_cell (pfx @ dss_cell_name (m_dss s) (c_cell (snd c))) (fst st))"
    from build_memo_grows(1) [OF newcell(2)] obtain new2 where
      m2: "snd st2 = (snd st @ [(conn_key c, ?L)]) @ new2"
      by auto
    from build_memo_grows(2) [OF newcell(3)] obtain new3 where "snd st1 = snd st2 @ new3"
      by auto
    from memo_lookup_kept [OF this
        memo_lookup_kept [OF m2 map_of_snoc_new [OF conn_branch_key(3) [OF newcell(1)]]]]
    have k: "map_of (snd st1) (conn_key c) = Some ?L" .
    from build_extends(1) [OF newcell(2)] have e: "extends_layout ?L ?ly0 (fst st2)"
      by simp
    from extends_length [OF e] Cons.prems(2) have len: "target_cell < length (ly_cells (fst st2))"
      by simp
    from extends_same_target [OF e, of target_cell] Cons.prems(2)
    have same: "ly_cells (fst st2) ! target_cell = ly_cells (fst st) ! target_cell"
      by (simp add: add_cell_def nth_append)
    from Cons.IH [OF newcell(3)] len show ?thesis
      by (simp add: insts_place_inst child_insts_Cons k same)
  qed
qed

lemma net_cell_block_None [simp]:
  "net_cell_block nl lm ccp node tc n None tr ly = Inr (Some (tc, ly))"
  by (simp add: net_cell_block_def)

lemma build_net_rec_insts:
  assumes "build_net_rec s lm ccp dcp node tc n None tr st = Inr st1"
    and "tc < length (ly_cells (fst st))"
  shows "tc_insts (ly_cells (fst st1) ! tc)
       = tc_insts (ly_cells (fst st) ! tc)
           @ (if ccp = None \<and> dcp = None then []
              else child_insts (snd st1) (trans_mult tr (trans_of_mag (1 / t_mag tr)))
                     (trans_of_mag (t_mag tr)) (c_conns node))"
  using assms(1)
proof (cases rule: build_net_rec_cases)
  case shortcut
  then show ?thesis by simp
next
  case (flat x y ly2)
  then have "x = tc" "y = fst st" by simp_all
  with deliver_layers_insts [OF flat(2)] flat(3,4) assms(2) show ?thesis
    by simp
next
  case (rec x y ly2)
  then have xy: "x = tc" "y = fst st" by simp_all
  from deliver_layers_insts [OF rec(2)] xy assms(2)
  have "tc < length (ly_cells ly2)" "tc_insts (ly_cells ly2 ! tc) = tc_insts (ly_cells (fst st) ! tc)"
    by simp_all
  with build_conns_insts [OF rec(4)] xy rec(3) show ?thesis
    by auto
qed

lemma new_cells_same [simp]: "new_cells cm cm = []"
  by (simp add: new_cells_def)

lemma new_cells_trans:
  assumes "cm1 = cm @ n1" and "cm2 = cm1 @ n2"
  shows "new_cells cm cm2 = new_cells cm cm1 @ new_cells cm1 cm2"
  using assms by (simp add: new_cells_def)

lemma new_cells_snoc:
  "new_cells cm (cm @ [(k, v)]) = (if v \<noteq> cell_index_max then [v] else [])"
  by (simp add: new_cells_def)

lemma distinct_snoc_key:
  assumes "distinct (map fst cm)" and "map_of cm k = None"
  shows "distinct (map fst (cm @ [(k, v)]))"
  using assms by (simp add: map_of_eq_None_iff)

lemma upt_split:
  assumes "Suc a \<le> b" and "b \<le> c"
  shows "a # [Suc a ..< b] @ [b ..< c] = [a ..< c]"
proof -
  from assms(2) obtain k where k: "c = b + k"
    by (auto simp: le_iff_add)
  from assms(1) have "a \<le> b" by simp
  from upt_add_eq_append [OF this, of k] k have "[a ..< c] = [a ..< b] @ [b ..< c]"
    by simp
  moreover from assms(1) upt_conv_Cons [of a b] have "[a ..< b] = a # [Suc a ..< b]"
    by simp
  ultimately show ?thesis by simp
qed

lemma build_memo_cells:
  shows "build_net_rec s lm ccp dcp nd tc n ncp tr st = Inr st1 \<Longrightarrow> ncp = None \<Longrightarrow>
      distinct (map fst (snd st)) \<Longrightarrow> length (ly_cells (fst st1)) \<le> cell_index_max \<Longrightarrow>
      distinct (map fst (snd st1))
      \<and> new_cells (snd st) (snd st1) = [length (ly_cells (fst st)) ..< length (ly_cells (fst st1))]"
    and "build_conns s lm ccp dcp two tm target_cell cs st = Inr st1 \<Longrightarrow>
      distinct (map fst (snd st)) \<Longrightarrow> length (ly_cells (fst st1)) \<le> cell_index_max \<Longrightarrow>
      distinct (map fst (snd st1))
      \<and> new_cells (snd st) (snd st1) = [length (ly_cells (fst st)) ..< length (ly_cells (fst st1))]"
proof (induction s lm ccp dcp nd tc n ncp tr st and s lm ccp dcp two tm target_cell cs st
    arbitrary: st1 and st1 rule: build_induct)
  case (node s lm ccp dcp node tc n ncp tr st)
  from node.prems(1) show ?case
  proof (cases rule: build_net_rec_cases)
    case shortcut
    with node.prems show ?thesis by simp
  next
    case (flat x y ly2)
    with node.prems(2) have "y = fst st" by simp
    with deliver_layers_insts [OF flat(2)] flat(4) node.prems(3) show ?thesis
      by simp
  next
    case (rec x y ly2)
    with node.prems(2) have "y = fst st" by simp
    with deliver_layers_insts [OF rec(2)] have len: "length (ly_cells ly2) = length (ly_cells (fst st))"
      by simp
    from node.IH [OF rec(1,2,3,4)] node.prems(3,4) len show ?thesis
      by simp
  qed
next
  case (nil s lm ccp dcp two tm target_cell st)
  then show ?case by simp
next
  case (cons s lm ccp dcp two tm target_cell c cs st)
  from cons.prems(1) show ?case
  proof (cases rule: build_conns_cases)
    case (known v)
    from cons.IH(1) [OF known(1,2)] cons.prems(2,3) show ?thesis
      by simp
  next
    case nocell
    let ?cm0 = "snd st @ [(conn_key c, cell_index_max)]"
    from distinct_snoc_key [OF cons.prems(2) conn_branch_key(2) [OF nocell(1)]]
    have d: "distinct (map fst ?cm0)" .
    from cons.IH(2) [OF nocell(1,2)] d cons.prems(3)
    have r: "distinct (map fst (snd st1))"
      "new_cells ?cm0 (snd st1) = [length (ly_cells (fst st)) ..< length (ly_cells (fst st1))]"
      by simp_all
    from build_memo_grows(2) [OF nocell(2)] obtain new where "snd st1 = ?cm0 @ new"
      by auto
    from new_cells_trans [OF refl this] have "new_cells (snd st) (snd st1) = new_cells ?cm0 (snd st1)"
      by (simp add: new_cells_snoc)
    with r show ?thesis by simp
  next
    case (newcell pfx st2)
    let ?L = "length (ly_cells (fst st))"
    let ?ly0 = "snd (add_cell (pfx @ dss_cell_name (m_dss s) (c_cell (snd c))) (fst st))"
    let ?cm0 = "snd st @ [(conn_key c, ?L)]"
    from build_extends(1) [OF newcell(2)] have "extends_layout ?L ?ly0 (fst st2)"
      by simp
    from extends_length [OF this] have l2: "Suc ?L \<le> length (ly_cells (fst st2))"
      by simp
    from build_extends(2) [OF newcell(3)] have
      "extends_layout target_cell (place_inst target_cell ?L two tm (fst c) (fst st2)) (fst st1)"
      by simp
    from extends_length [OF this] have l1: "length (ly_cells (fst st2)) \<le> length (ly_cells (fst st1))"
      by simp
    from l1 cons.prems(3) have b2: "length (ly_cells (fst st2)) \<le> cell_index_max"
      by simp
    from l1 l2 cons.prems(3) have Lmax: "?L \<noteq> cell_index_max"
      by simp
    from distinct_snoc_key [OF cons.prems(2) conn_branch_key(3) [OF newcell(1)]]
    have d: "distinct (map fst ?cm0)" .
    from cons.IH(3) [OF newcell(1,2) refl] d b2
    have r2: "distinct (map fst (snd st2))"
      "new_cells ?cm0 (snd st2) = [Suc ?L ..< length (ly_cells (fst st2))]"
      by simp_all
    from cons.IH(4) [OF newcell(1,2,3)] r2(1) cons.prems(3)
    have r1: "distinct (map fst (snd st1))"
      "new_cells (snd st2) (snd st1) = [length (ly_cells (fst st2)) ..< length (ly_cells (fst st1))]"
      by simp_all
    from build_memo_grows(1) [OF newcell(2)] obtain new2 where m2: "snd st2 = ?cm0 @ new2"
      by auto
    from build_memo_grows(2) [OF newcell(3)] obtain new3 where m3: "snd st1 = snd st2 @ new3"
      by auto
    from m2 m3 have m: "snd st1 = ?cm0 @ (new2 @ new3)" by simp
    have "new_cells (snd st) (snd st1) = new_cells (snd st) ?cm0 @ new_cells ?cm0 (snd st1)"
      by (rule new_cells_trans [OF refl m])
    also have "new_cells ?cm0 (snd st1) = new_cells ?cm0 (snd st2) @ new_cells (snd st2) (snd st1)"
      by (rule new_cells_trans [OF m2 m3])
    finally have "new_cells (snd st) (snd st1)
        = ?L # [Suc ?L ..< length (ly_cells (fst st2))]
            @ [length (ly_cells (fst st2)) ..< length (ly_cells (fst st1))]"
      by (simp add: new_cells_snoc Lmax r2(2) r1(2))
    also from l2 l1 have "\<dots> = [?L ..< length (ly_cells (fst st1))]"
      by (rule upt_split)
    finally show ?thesis using r1(1) by simp
  qed
qed

lemma agree_refl [simp]: "agree X ly ly"
  by (simp add: agree_def)

lemma agree_length: "agree X a b \<Longrightarrow> length (ly_cells a) = length (ly_cells b)"
  by (simp add: agree_def)

lemma agree_add_cell:
  "agree X a b \<Longrightarrow> agree X (snd (add_cell n a)) (snd (add_cell n b))"
  by (auto simp: agree_def add_cell_def nth_append)

lemma agree_insert_shapes:
  assumes "agree X a b" and "xs = ys \<or> tc \<in> X"
  shows "agree X (cell_insert_shapes tc l xs a) (cell_insert_shapes tc l ys b)"
proof -
  have "ly_cells (cell_insert_shapes tc l xs a) ! i = ly_cells (cell_insert_shapes tc l ys b) ! i"
    if "i < length (ly_cells a)" and "i \<notin> X" for i
  proof (cases "i = tc")
    case True
    with that assms show ?thesis
      by (auto simp: agree_def cell_insert_shapes_def)
  next
    case False
    with that assms(1) show ?thesis
      by (simp add: agree_def cell_insert_shapes_def)
  qed
  with assms(1) show ?thesis
    by (simp add: agree_def) (simp add: cell_insert_shapes_def)
qed

lemma agree_insert_inst:
  assumes "agree X a b" and "i1 = i2 \<or> tc \<in> X"
  shows "agree X (cell_insert_inst tc i1 a) (cell_insert_inst tc i2 b)"
proof -
  have "ly_cells (cell_insert_inst tc i1 a) ! i = ly_cells (cell_insert_inst tc i2 b) ! i"
    if "i < length (ly_cells a)" and "i \<notin> X" for i
  proof (cases "i = tc")
    case True
    with that assms show ?thesis
      by (auto simp: agree_def cell_insert_inst_def)
  next
    case False
    with that assms(1) show ?thesis
      by (simp add: agree_def cell_insert_inst_def)
  qed
  with assms(1) show ?thesis
    by (simp add: agree_def) (simp add: cell_insert_inst_def)
qed

lemma agree_place_inst:
  assumes "agree X a b" and "two = two' \<or> tc \<in> X"
  shows "agree X (place_inst tc v two tm t a) (place_inst tc v two' tm t b)"
  using assms by (auto simp: place_inst_def intro: agree_insert_inst)

lemma deliver_layers_agree:
  "deliver_layers nl node tr tc lm ly = Inr ly2 \<Longrightarrow> agree X ly ly' \<Longrightarrow> tr' = tr \<or> tc \<in> X \<Longrightarrow>
     \<exists>ly2'. deliver_layers nl node tr' tc lm ly' = Inr ly2' \<and> agree X ly2 ly2'"
proof (induction lm arbitrary: ly ly')
  case Nil
  then show ?case by auto
next
  case (Cons l lm)
  show ?case
  proof (cases "snd l")
    case None
    with Cons.prems Cons.IH [of ly ly'] show ?thesis by simp
  next
    case (Some r)
    show ?thesis
    proof (cases "layer_of r")
      case (Inl e)
      with Cons.prems Some show ?thesis by simp
    next
      case (Inr lid)
      let ?a = "cell_insert_shapes tc (fst l)
          (sink_shapes (snd (deliver_shapes_of_net_nonrecursive nl node lid tr (Shapes [])))) ly"
      let ?b = "cell_insert_shapes tc (fst l)
          (sink_shapes (snd (deliver_shapes_of_net_nonrecursive nl node lid tr' (Shapes [])))) ly'"
      from Cons.prems(1) Some Inr have a: "deliver_layers nl node tr tc lm ?a = Inr ly2"
        by simp
      from Cons.prems(2,3) have "agree X ?a ?b"
        by (intro agree_insert_shapes) auto
      from Cons.IH [OF a this Cons.prems(3)] Some Inr show ?thesis
        by simp
    qed
  qed
qed

lemma build_agree:
  shows "build_net_rec s lm ccp dcp nd tc n ncp tr st = Inr st1 \<Longrightarrow> ncp = None \<Longrightarrow>
      t_mag tr' = t_mag tr \<Longrightarrow> agree X (fst st) ly' \<Longrightarrow> tr' = tr \<or> tc \<in> X \<Longrightarrow>
      \<exists>ly1'. build_net_rec s lm ccp dcp nd tc n ncp tr' (ly', snd st) = Inr (ly1', snd st1)
             \<and> agree X (fst st1) ly1'"
    and "build_conns s lm ccp dcp two tm target_cell cs st = Inr st1 \<Longrightarrow>
      agree X (fst st) ly' \<Longrightarrow> two' = two \<or> target_cell \<in> X \<Longrightarrow>
      \<exists>ly1'. build_conns s lm ccp dcp two' tm target_cell cs (ly', snd st) = Inr (ly1', snd st1)
             \<and> agree X (fst st1) ly1'"
proof (induction s lm ccp dcp nd tc n ncp tr st and s lm ccp dcp two tm target_cell cs st
    arbitrary: st1 tr' ly' X and st1 two' ly' X rule: build_induct)
  case (node s lm ccp dcp node tc n ncp tr st)
  note [simp] = \<open>ncp = None\<close>
  from node.prems(1) show ?case
  proof (cases rule: build_net_rec_cases)
    case shortcut
    then show ?thesis by simp
  next
    case (flat x y ly2)
    then have xy: "x = tc" "y = fst st" by simp_all
    from deliver_layers_agree [OF flat(2) [unfolded xy] node.prems(4,5)] obtain ly2' where
      "deliver_layers (netlist_get s) node tr' tc lm ly' = Inr ly2'" "agree X ly2 ly2'"
      by auto
    with flat(3,4) show ?thesis
      by (simp add: build_net_rec_unfold)
  next
    case (rec x y ly2)
    then have xy: "x = tc" "y = fst st" by simp_all
    from deliver_layers_agree [OF rec(2) [unfolded xy] node.prems(4,5)] obtain ly2' where
      dl': "deliver_layers (netlist_get s) node tr' tc lm ly' = Inr ly2'" and ag: "agree X ly2 ly2'"
      by auto
    from node.prems(5) node.prems(3)
    have "trans_mult tr' (trans_of_mag (1 / t_mag tr')) = trans_mult tr (trans_of_mag (1 / t_mag tr))
        \<or> x \<in> X"
      by (auto simp: xy)
    from node.IH [OF rec(1,2,3,4), of X ly2', OF _ this] ag
    obtain ly1' where "build_conns s lm ccp dcp (trans_mult tr' (trans_of_mag (1 / t_mag tr')))
        (trans_of_mag (t_mag tr)) x (c_conns node) (ly2', snd st) = Inr (ly1', snd st1)"
      "agree X (fst st1) ly1'"
      by auto
    with dl' rec(3) xy node.prems(3) show ?thesis
      by (auto simp: build_net_rec_unfold)
  qed
next
  case (nil s lm ccp dcp two tm target_cell st)
  then show ?case by auto
next
  case (cons s lm ccp dcp two tm target_cell c cs st)
  from cons.prems(1) show ?case
  proof (cases rule: build_conns_cases)
    case (known v)
    from agree_place_inst [OF cons.prems(2), of two two' target_cell v tm "fst c"] cons.prems(3)
    have "agree X (place_inst target_cell v two tm (fst c) (fst st))
        (place_inst target_cell v two' tm (fst c) ly')"
      by auto
    from cons.IH(1) [OF known(1,2), of X "place_inst target_cell v two' tm (fst c) ly'", OF _ cons.prems(3)]
      this
    show ?thesis
      by (simp add: build_conns_unfold known(1))
  next
    case nocell
    from cons.IH(2) [OF nocell(1,2), of X ly', OF _ cons.prems(3)] cons.prems(2)
    show ?thesis
      by (simp add: build_conns_unfold nocell(1))
  next
    case (newcell pfx st2)
    let ?L = "length (ly_cells (fst st))"
    let ?nm = "pfx @ dss_cell_name (m_dss s) (c_cell (snd c))"
    from agree_length [OF cons.prems(2)] have L: "length (ly_cells ly') = ?L"
      by simp
    from agree_add_cell [OF cons.prems(2)] have "agree X (snd (add_cell ?nm (fst st))) (snd (add_cell ?nm ly'))" .
    from cons.IH(3) [OF newcell(1,2) refl refl, of X "snd (add_cell ?nm ly')"] this
    obtain ly2' where
      r2: "build_net_rec s lm ccp dcp (snd c) ?L None None tm
             (snd (add_cell ?nm ly'), snd st @ [(conn_key c, ?L)]) = Inr (ly2', snd st2)"
      and a2: "agree X (fst st2) ly2'"
      by auto
    from agree_place_inst [OF a2, of two two' target_cell ?L tm "fst c"] cons.prems(3)
    have "agree X (place_inst target_cell ?L two tm (fst c) (fst st2))
        (place_inst target_cell ?L two' tm (fst c) ly2')"
      by auto
    from cons.IH(4) [OF newcell(1,2,3), of X "place_inst target_cell ?L two' tm (fst c) ly2'",
        OF _ cons.prems(3)] this
    show ?thesis
      by (simp add: build_conns_unfold newcell(1) L r2)
  qed
qed

end
